theory Spec2Isabelle
  imports Main "HOL-Library.Word" "HOL-Library.Code_Target_Numeral"
begin

unbundle bit_operations_syntax

section \<open>cfssljson: the data of the program\<close>

text \<open>
  The program is \<^verbatim>\<open>cmd/cfssljson/cfssljson.go\<close>. Its one substantial function,
  \<^verbatim>\<open>writeOutput\<close>, decodes a JSON document, collects a list of \<^verbatim>\<open>outputFile\<close>
  values from fixed keys of the decoded mapping, and hands the list to one of three
  sinks (files, standard output, one JSON object on standard output).

  A Go \<^verbatim>\<open>string\<close> is a sequence of bytes, and so is an Isabelle \<open>string\<close>.

  A value of type \<^verbatim>\<open>interface{}\<close> as \<^verbatim>\<open>encoding/json\<close> stores it: \<^verbatim>\<open>nil\<close>,
  \<^verbatim>\<open>bool\<close>, \<^verbatim>\<open>float64\<close> (its 64 bits), \<^verbatim>\<open>string\<close>, \<^verbatim>\<open>[]interface{}\<close> and
  \<^verbatim>\<open>map[string]interface{}\<close>. The program only ever looks keys up in a map, so a
  map is a partial function.
\<close>

datatype iface =
    INil
  | IBool bool
  | IFloat64 "64 word"
  | IString string
  | ISlice "iface list"
  | IMap "string \<Rightarrow> iface option"

type_synonym gomap = "string \<Rightarrow> iface option"

text \<open>The structs of the source, field by field.\<close>

record ResponseMessage =
  Code :: "64 word"
  Message :: string

record Response =
  Success :: bool
  Result :: gomap
  Errors :: "ResponseMessage list"
  Messages :: "ResponseMessage list"

record outputFile =
  Filename :: string
  Contents :: string
  IsBinary :: bool
  Perms :: "32 word"

text \<open>
  \<^verbatim>\<open>os.FileMode\<close> is a \<^verbatim>\<open>uint32\<close>; the source writes the modes in octal
  (\<^verbatim>\<open>0664\<close>, \<^verbatim>\<open>0600\<close>, \<^verbatim>\<open>0644\<close>), and \<open>octal 6 6 4\<close> is \<^verbatim>\<open>0664\<close>.
\<close>

definition octal :: "nat \<Rightarrow> nat \<Rightarrow> nat \<Rightarrow> 32 word" where
  "octal a b c = of_nat (a * 64 + b * 8 + c)"

text \<open>
  The two ways the program stops early. \<open>Exited text code\<close>: \<open>text\<close> was written to
  the diagnostic stream and \<^verbatim>\<open>os.Exit(code)\<close> was called. \<open>Panicked dyn asserted\<close>:
  a type assertion \<^verbatim>\<open>x.(T)\<close> failed at run time (Go's \<^verbatim>\<open>runtime.TypeAssertionError\<close>,
  with the dynamic type of \<^verbatim>\<open>x\<close> and the asserted type \<^verbatim>\<open>T\<close>); nothing recovers it.
\<close>

datatype abort =
    Exited string nat
  | Panicked string string

definition writeErrorAndExit :: "string \<Rightarrow> abort + 'a" where
  "writeErrorAndExit formatted = Inl (Exited formatted 1)"

fun dynamic_type :: "iface \<Rightarrow> string" where
  "dynamic_type INil = ''nil''"
| "dynamic_type (IBool b) = ''bool''"
| "dynamic_type (IFloat64 f) = ''float64''"
| "dynamic_type (IString s) = ''string''"
| "dynamic_type (ISlice xs) = ''[]interface {}''"
| "dynamic_type (IMap m) = ''map[string]interface {}''"

text \<open>\<^verbatim>\<open>contents.(string)\<close>, the form that panics.\<close>

definition assert_string :: "iface \<Rightarrow> abort + string" where
  "assert_string contents =
     (case contents of
        IString s \<Rightarrow> Inr s
      | _ \<Rightarrow> Inl (Panicked (dynamic_type contents) ''string''))"

text \<open>
  \<^verbatim>\<open>v, ok := m[k].(T)\<close>, the form that reports: indexing a map at a missing key gives
  the nil interface, for which the assertion reports \<^verbatim>\<open>ok = false\<close>.
\<close>

definition string_ok :: "iface option \<Rightarrow> string option" where
  "string_ok x = (case x of Some (IString s) \<Rightarrow> Some s | _ \<Rightarrow> None)"

definition map_ok :: "iface option \<Rightarrow> gomap option" where
  "map_ok x = (case x of Some (IMap m) \<Rightarrow> Some m | _ \<Rightarrow> None)"

section \<open>The library the program calls\<close>

text \<open>
  \<^verbatim>\<open>json.Unmarshal\<close> and \<^verbatim>\<open>ioutil.WriteFile\<close> belong to Go's standard library and to
  the operating system, not to the repository: they are parameters of the model. A Go
  \<^verbatim>\<open>error\<close> is represented by its message, the text \<^verbatim>\<open>%v\<close> prints.
  \<^item> \<open>json_Unmarshal_map\<close>: \<^verbatim>\<open>json.Unmarshal(fileData, &input)\<close> for the map
    \<^verbatim>\<open>input\<close>: the error, or the map afterwards;
  \<^item> \<open>json_Unmarshal_Response\<close>: \<^verbatim>\<open>json.Unmarshal(fileData, &response)\<close>: the error,
    or the struct afterwards;
  \<^item> \<open>ioutil_WriteFile\<close>: \<^verbatim>\<open>ioutil.WriteFile(filespec, contents, perms)\<close>: the error,
    if any.
\<close>

record stdlib =
  json_Unmarshal_map :: "string \<Rightarrow> string + gomap"
  json_Unmarshal_Response :: "string \<Rightarrow> string + Response"
  ioutil_WriteFile :: "string \<Rightarrow> string \<Rightarrow> 32 word \<Rightarrow> string option"

subsection \<open>encoding/base64, StdEncoding\<close>

text \<open>
  \<^verbatim>\<open>base64.StdEncoding\<close> is the alphabet of RFC 4648 with \<^verbatim>\<open>=\<close> padding. The
  definitions follow the library's \<^verbatim>\<open>Encode\<close> and \<^verbatim>\<open>decodeQuantum\<close>: the encoder
  packs three bytes into a 24-bit value and cuts it into four 6-bit digits; the decoder
  builds its table from the alphabet, skips \<^verbatim>\<open>\r\<close> and \<^verbatim>\<open>\n\<close>, insists on padding
  and reports the offset of the first byte it cannot accept
  (\<^verbatim>\<open>CorruptInputError(offset)\<close>). Bytes and the \<^verbatim>\<open>uint\<close> accumulator are natural
  numbers: the accumulator stays below \<open>2 ^ 24\<close>.
\<close>

definition encodeStd :: string where
  "encodeStd = ''ABCDEFGHIJKLMNOPQRSTUVWXYZabcdefghijklmnopqrstuvwxyz0123456789+/''"

definition padChar :: char where
  "padChar = CHR ''=''"

definition encode :: "nat \<Rightarrow> char" where
  "encode i = encodeStd ! i"

fun index_of :: "char \<Rightarrow> string \<Rightarrow> nat \<Rightarrow> nat" where
  "index_of c [] i = 255"
| "index_of c (x # xs) i = (if x = c then i else index_of c xs (Suc i))"

text \<open>\<^verbatim>\<open>decodeMap[c]\<close>: the digit of \<open>c\<close>, or \<^verbatim>\<open>0xff\<close> when \<open>c\<close> is not in the alphabet.\<close>

definition decodeMap :: "char \<Rightarrow> nat" where
  "decodeMap c = index_of c encodeStd 0"

fun EncodeToString :: "string \<Rightarrow> string" where
  "EncodeToString [] = []"
| "EncodeToString [a] =
     (let val = push_bit 16 (of_char a :: nat)
      in [encode (drop_bit 18 val AND 63), encode (drop_bit 12 val AND 63), padChar, padChar])"
| "EncodeToString [a, b] =
     (let val = push_bit 16 (of_char a :: nat) OR push_bit 8 (of_char b)
      in [encode (drop_bit 18 val AND 63), encode (drop_bit 12 val AND 63),
          encode (drop_bit 6 val AND 63), padChar])"
| "EncodeToString (a # b # c # src) =
     (let val = push_bit 16 (of_char a :: nat) OR push_bit 8 (of_char b) OR of_char c
      in [encode (drop_bit 18 val AND 63), encode (drop_bit 12 val AND 63),
          encode (drop_bit 6 val AND 63), encode (val AND 63)] @ EncodeToString src)"

text \<open>
  The end of \<^verbatim>\<open>decodeQuantum\<close>: \<open>dbuf\<close> holds the \<open>dlen\<close> digits read (missing ones
  count as 0); they are packed into 24 bits, and \<open>dlen - 1\<close> bytes come out.
\<close>

definition quantum_bytes :: "nat list \<Rightarrow> string" where
  "quantum_bytes dbuf =
     (let d = dbuf @ replicate (4 - length dbuf) 0;
          val = push_bit 18 (d ! 0) OR push_bit 12 (d ! 1) OR push_bit 6 (d ! 2) OR d ! 3
      in take (length dbuf - 1)
           [char_of (drop_bit 16 val), char_of (drop_bit 8 val), char_of val])"

fun skip_newlines :: "nat \<Rightarrow> string \<Rightarrow> nat \<times> string" where
  "skip_newlines si [] = (si, [])"
| "skip_newlines si (c # cs) =
     (if c = CHR 0x0A \<or> c = CHR 0x0D then skip_newlines (Suc si) cs else (si, c # cs))"

text \<open>
  What \<^verbatim>\<open>decodeQuantum\<close> does once it has read a padding character at index \<open>si - 1\<close>
  as digit number \<open>j\<close> of the quantum; \<open>rest\<close> is \<^verbatim>\<open>src[si:]\<close> and \<open>n\<close> is
  \<^verbatim>\<open>len(src)\<close>. The result is the bytes of the quantum and the error offset, if any.
\<close>

definition decode_padding :: "nat \<Rightarrow> nat list \<Rightarrow> nat \<Rightarrow> nat \<Rightarrow> string \<Rightarrow> string \<times> nat option" where
  "decode_padding j dbuf si n rest =
     (if j = 0 \<or> j = 1 then ([], Some (si - 1))
      else
        (let trailing = (\<lambda>(si', rest').
               (case skip_newlines si' rest' of
                  (si'', rest'') \<Rightarrow>
                    (quantum_bytes dbuf, if rest'' \<noteq> [] then Some si'' else None)))
         in if j = 2 then
              (case skip_newlines si rest of
                 (si', []) \<Rightarrow> ([], Some n)
               | (si', c # rest') \<Rightarrow>
                   if c \<noteq> padChar then ([], Some (si' - 1)) else trailing (Suc si', rest'))
            else trailing (si, rest)))"

text \<open>
  The loop of \<^verbatim>\<open>Decode\<close> with \<^verbatim>\<open>decodeQuantum\<close> inlined: \<open>j\<close> digits of the current
  quantum are in \<open>dbuf\<close>, \<open>si\<close> is the index of the next byte, \<open>n\<close> is \<^verbatim>\<open>len(src)\<close>.
  The library's fast paths for 8 and 4 valid digits compute the same bytes.
\<close>

fun decode_loop :: "nat \<Rightarrow> nat list \<Rightarrow> nat \<Rightarrow> nat \<Rightarrow> string \<Rightarrow> string \<times> nat option" where
  "decode_loop j dbuf si n [] = ([], if j = 0 then None else Some (si - j))"
| "decode_loop j dbuf si n (c # cs) =
     (let out = decodeMap c in
      if out \<noteq> 255 then
        (if j = 3 then
           (case decode_loop 0 [] (Suc si) n cs of
              (bs, err) \<Rightarrow> (quantum_bytes (dbuf @ [out]) @ bs, err))
         else decode_loop (Suc j) (dbuf @ [out]) (Suc si) n cs)
      else if c = CHR 0x0A \<or> c = CHR 0x0D then decode_loop j dbuf (Suc si) n cs
      else if c \<noteq> padChar then ([], Some si)
      else decode_padding j dbuf (Suc si) n cs)"

fun decimal :: "nat \<Rightarrow> string" where
  "decimal k = (if k < 10 then [char_of (48 + k)] else decimal (k div 10) @ [char_of (48 + k mod 10)])"

declare decimal.simps [simp del]

text \<open>\<^verbatim>\<open>CorruptInputError.Error()\<close>.\<close>

definition CorruptInputError :: "nat \<Rightarrow> string" where
  "CorruptInputError off = ''illegal base64 data at input byte '' @ decimal off"

text \<open>\<^verbatim>\<open>DecodeString\<close>: the error, or the decoded bytes.\<close>

definition DecodeString :: "string \<Rightarrow> string + string" where
  "DecodeString s =
     (case decode_loop 0 [] 0 (length s) s of
        (bs, None) \<Rightarrow> Inr bs
      | (bs, Some off) \<Rightarrow> Inl (CorruptInputError off))"

subsection \<open>encoding/json, Marshal of a map[string]string\<close>

text \<open>
  \<^verbatim>\<open>json.Marshal\<close> of a \<^verbatim>\<open>map[string]string\<close> writes one object, its keys sorted as
  byte strings, keys and values quoted by the encoder's \<^verbatim>\<open>appendString\<close> with HTML
  escaping on, as current Go releases do. \<^verbatim>\<open>utf8.DecodeRuneInString\<close> is needed for
  the bytes from \<^verbatim>\<open>0x80\<close> on: a byte that starts no valid UTF-8 sequence is written
  as \<^verbatim>\<open>\ufffd\<close>.
\<close>

definition RuneError :: nat where
  "RuneError = 0xFFFD"

text \<open>
  The library's table \<^verbatim>\<open>first\<close> with \<^verbatim>\<open>acceptRanges\<close>: for a leading byte, the
  length of the sequence it starts and the range its second byte must lie in; length 1
  stands for a byte that leads nothing.
\<close>

definition first_byte :: "nat \<Rightarrow> nat \<times> nat \<times> nat" where
  "first_byte s0 =
     (if 0xC2 \<le> s0 \<and> s0 \<le> 0xDF then (2, 0x80, 0xBF)
      else if s0 = 0xE0 then (3, 0xA0, 0xBF)
      else if 0xE1 \<le> s0 \<and> s0 \<le> 0xEC then (3, 0x80, 0xBF)
      else if s0 = 0xED then (3, 0x80, 0x9F)
      else if 0xEE \<le> s0 \<and> s0 \<le> 0xEF then (3, 0x80, 0xBF)
      else if s0 = 0xF0 then (4, 0x90, 0xBF)
      else if 0xF1 \<le> s0 \<and> s0 \<le> 0xF3 then (4, 0x80, 0xBF)
      else if s0 = 0xF4 then (4, 0x80, 0x8F)
      else (1, 0, 0))"

definition byte_at :: "string \<Rightarrow> nat \<Rightarrow> nat" where
  "byte_at s i = of_char (s ! i)"

text \<open>The rune and the number of bytes it takes; read only below \<open>length s\<close>.\<close>

definition DecodeRuneInString :: "string \<Rightarrow> nat \<times> nat" where
  "DecodeRuneInString s =
     (if length s < 1 then (RuneError, 0)
      else
        (let s0 = byte_at s 0 in
         if s0 < 0x80 then (s0, 1)
         else
           (case first_byte s0 of (sz, lo, hi) \<Rightarrow>
              if sz = 1 \<or> length s < sz then (RuneError, 1)
              else
                (let s1 = byte_at s 1 in
                 if s1 < lo \<or> hi < s1 then (RuneError, 1)
                 else if sz \<le> 2 then (push_bit 6 (s0 AND 0x1F) OR (s1 AND 0x3F), 2)
                 else
                   (let s2 = byte_at s 2 in
                    if s2 < 0x80 \<or> 0xBF < s2 then (RuneError, 1)
                    else if sz \<le> 3 then
                      (push_bit 12 (s0 AND 0x0F) OR push_bit 6 (s1 AND 0x3F) OR (s2 AND 0x3F), 3)
                    else
                      (let s3 = byte_at s 3 in
                       if s3 < 0x80 \<or> 0xBF < s3 then (RuneError, 1)
                       else
                         (push_bit 18 (s0 AND 0x07) OR push_bit 12 (s1 AND 0x3F)
                            OR push_bit 6 (s2 AND 0x3F) OR (s3 AND 0x3F), 4)))))))"

definition hex :: string where
  "hex = ''0123456789abcdef''"

text \<open>\<^verbatim>\<open>htmlSafeSet[b]\<close> for a byte below \<^verbatim>\<open>0x80\<close>: printable, and none of \<^verbatim>\<open>" & < > \\<close>.\<close>

definition htmlSafeSet :: "nat \<Rightarrow> bool" where
  "htmlSafeSet b = (0x20 \<le> b \<and> b < 0x80 \<and> b \<noteq> 0x22 \<and> b \<noteq> 0x26 \<and> b \<noteq> 0x3C \<and> b \<noteq> 0x3E \<and> b \<noteq> 0x5C)"

definition escape_ascii :: "char \<Rightarrow> string" where
  "escape_ascii c =
     (let b = of_char c :: nat in
      if b = 0x5C \<or> b = 0x22 then [CHR 0x5C, c]
      else if b = 0x08 then [CHR 0x5C, CHR ''b'']
      else if b = 0x0C then [CHR 0x5C, CHR ''f'']
      else if b = 0x0A then [CHR 0x5C, CHR ''n'']
      else if b = 0x0D then [CHR 0x5C, CHR ''r'']
      else if b = 0x09 then [CHR 0x5C, CHR ''t'']
      else [CHR 0x5C, CHR ''u'', CHR ''0'', CHR ''0'', hex ! drop_bit 4 b, hex ! (b AND 0xF)])"

text \<open>The loop of \<^verbatim>\<open>appendString\<close>, between the two quotation marks.\<close>

fun string_body :: "string \<Rightarrow> string" where
  "string_body [] = []"
| "string_body (c # cs) =
     (if (of_char c :: nat) < 0x80 then
        (if htmlSafeSet (of_char c) then c # string_body cs
         else escape_ascii c @ string_body cs)
      else
        (case DecodeRuneInString (c # cs) of (r, sz) \<Rightarrow>
           if r = RuneError \<and> sz = 1 then [CHR 0x5C] @ ''ufffd'' @ string_body cs
           else if r = 0x2028 \<or> r = 0x2029 then
             [CHR 0x5C] @ ''u202'' @ [hex ! (r AND 0xF)] @ string_body (drop (sz - 1) cs)
           else take sz (c # cs) @ string_body (drop (sz - 1) cs)))"

definition appendString :: "string \<Rightarrow> string" where
  "appendString src = [CHR 0x22] @ string_body src @ [CHR 0x22]"

text \<open>
  A \<^verbatim>\<open>map[string]string\<close> that the program fills by assignment is an association list
  with one entry per key; \<open>dict_set\<close> is \<^verbatim>\<open>m[k] = v\<close>.
\<close>

fun dict_set :: "(string \<times> string) list \<Rightarrow> string \<Rightarrow> string \<Rightarrow> (string \<times> string) list" where
  "dict_set [] k v = [(k, v)]"
| "dict_set ((k', v') # m) k v = (if k' = k then (k, v) # m else (k', v') # dict_set m k v)"

text \<open>Go compares strings byte by byte; a proper prefix comes first.\<close>

fun string_less :: "string \<Rightarrow> string \<Rightarrow> bool" where
  "string_less [] [] = False"
| "string_less [] (y # ys) = True"
| "string_less (x # xs) [] = False"
| "string_less (x # xs) (y # ys) =
     ((of_char x :: nat) < of_char y \<or> (x = y \<and> string_less xs ys))"

fun insert_sorted :: "string \<times> string \<Rightarrow> (string \<times> string) list \<Rightarrow> (string \<times> string) list" where
  "insert_sorted e [] = [e]"
| "insert_sorted e (x # xs) =
     (if string_less (fst x) (fst e) then x # insert_sorted e xs else e # x # xs)"

definition sorted_entries :: "(string \<times> string) list \<Rightarrow> (string \<times> string) list" where
  "sorted_entries m = foldr insert_sorted m []"

fun join :: "string \<Rightarrow> string list \<Rightarrow> string" where
  "join sep [] = []"
| "join sep [x] = x"
| "join sep (x # y # ys) = x @ sep @ join sep (y # ys)"

text \<open>The error, or the bytes; encoding a \<^verbatim>\<open>map[string]string\<close> has no error.\<close>

definition json_Marshal :: "(string \<times> string) list \<Rightarrow> string + string" where
  "json_Marshal m =
     Inr (''{'' @ join '','' (map (\<lambda>(k, v). appendString k @ '':'' @ appendString v) (sorted_entries m))
          @ ''}'')"

text \<open>\<^verbatim>\<open>%v\<close> of a \<^verbatim>\<open>map[string]string\<close>, as \<^verbatim>\<open>fmt\<close> prints it.\<close>

definition fmt_map :: "(string \<times> string) list \<Rightarrow> string" where
  "fmt_map m = ''map['' @ join '' '' (map (\<lambda>(k, v). k @ '':'' @ v) (sorted_entries m)) @ '']''"

section \<open>writeOutput\<close>

text \<open>
  \<^verbatim>\<open>writeOutput\<close> runs three phases one after the other, each able to stop the
  program: it decodes the input into the mapping \<^verbatim>\<open>input\<close> (lines 96 to 117), it goes
  through the known keys and appends to \<^verbatim>\<open>outs\<close> (lines 119 to 207), and it writes
  \<^verbatim>\<open>outs\<close> out (lines 209 to 234). Nothing is written to standard output or to a
  file before the third phase.
\<close>

subsection \<open>Lines 96 to 117: the input mapping\<close>

definition unwrap :: "stdlib \<Rightarrow> string \<Rightarrow> bool \<Rightarrow> abort + gomap" where
  "unwrap lib fileData bare =
     (if bare then
        (case json_Unmarshal_map lib fileData of
           Inl err \<Rightarrow> writeErrorAndExit (''Failed to parse JSON: '' @ fileData @ [CHR 0x0A])
         | Inr input \<Rightarrow> Inr input)
      else
        (case json_Unmarshal_Response lib fileData of
           Inl err \<Rightarrow> writeErrorAndExit (''Failed to parse input: '' @ err @ [CHR 0x0A])
         | Inr response \<Rightarrow>
             if \<not> Success response then
               Inl (Exited
                 (''Request failed:'' @ [CHR 0x0A]
                    @ concat (map (\<lambda>msg. [CHR 0x09] @ Message msg @ [CHR 0x0A]) (Errors response)))
                 1)
             else Inr (Result response)))"

subsection \<open>Lines 119 to 207: the artifacts\<close>

text \<open>
  The pattern of lines 119 to 123, which the source repeats for the key and the request:
  the value under \<open>name\<close> if the key is present, else the value under \<open>alias\<close> if that
  key is present, else the zero value of the \<^verbatim>\<open>string\<close> variable; a value that is
  present goes through \<^verbatim>\<open>contents.(string)\<close>.
\<close>

definition lookup_string :: "gomap \<Rightarrow> string \<Rightarrow> string \<Rightarrow> abort + string" where
  "lookup_string input name alias =
     (case input name of
        Some contents \<Rightarrow> assert_string contents
      | None \<Rightarrow>
          (case input alias of
             Some contents \<Rightarrow> assert_string contents
           | None \<Rightarrow> Inr []))"

text \<open>Lines 119 to 130.\<close>

definition cert_step :: "string \<Rightarrow> gomap \<Rightarrow> outputFile list \<Rightarrow> abort + outputFile list" where
  "cert_step baseName input outs =
     (case lookup_string input ''cert'' ''certificate'' of
        Inl a \<Rightarrow> Inl a
      | Inr cert \<Rightarrow>
          if cert \<noteq> [] then
            Inr (outs @ [\<lparr>Filename = baseName @ ''.pem'', Contents = cert,
                           IsBinary = False, Perms = octal 6 6 4\<rparr>])
          else Inr outs)"

text \<open>Lines 132 to 143.\<close>

definition key_step :: "string \<Rightarrow> gomap \<Rightarrow> outputFile list \<Rightarrow> abort + outputFile list" where
  "key_step baseName input outs =
     (case lookup_string input ''key'' ''private_key'' of
        Inl a \<Rightarrow> Inl a
      | Inr key \<Rightarrow>
          if key \<noteq> [] then
            Inr (outs @ [\<lparr>Filename = baseName @ ''-key.pem'', Contents = key,
                           IsBinary = False, Perms = octal 6 0 0\<rparr>])
          else Inr outs)"

text \<open>Lines 145 to 153.\<close>

definition encrypted_key_step :: "string \<Rightarrow> gomap \<Rightarrow> outputFile list \<Rightarrow> abort + outputFile list" where
  "encrypted_key_step baseName input outs =
     (case input ''encrypted_key'' of
        Some contents \<Rightarrow>
          (case assert_string contents of
             Inl a \<Rightarrow> Inl a
           | Inr encKey \<Rightarrow>
               Inr (outs @ [\<lparr>Filename = baseName @ ''-key.enc'', Contents = encKey,
                              IsBinary = True, Perms = octal 6 0 0\<rparr>]))
      | None \<Rightarrow> Inr outs)"

text \<open>Lines 155 to 166.\<close>

definition csr_step :: "string \<Rightarrow> gomap \<Rightarrow> outputFile list \<Rightarrow> abort + outputFile list" where
  "csr_step baseName input outs =
     (case lookup_string input ''csr'' ''certificate_request'' of
        Inl a \<Rightarrow> Inl a
      | Inr csr \<Rightarrow>
          if csr \<noteq> [] then
            Inr (outs @ [\<lparr>Filename = baseName @ ''.csr'', Contents = csr,
                           IsBinary = False, Perms = octal 6 4 4\<rparr>])
          else Inr outs)"

text \<open>Lines 168 to 193.\<close>

definition bundle_step :: "string \<Rightarrow> gomap \<Rightarrow> outputFile list \<Rightarrow> abort + outputFile list" where
  "bundle_step baseName input outs =
     (case map_ok (input ''result'') of
        None \<Rightarrow> Inr outs
      | Some result \<Rightarrow>
          (case map_ok (result ''bundle'') of
             None \<Rightarrow> Inr outs
           | Some bundle \<Rightarrow>
               (case string_ok (bundle ''bundle'') of
                  None \<Rightarrow> writeErrorAndExit (''inner bundle parsing failed!'' @ [CHR 0x0A])
                | Some certificateBundle \<Rightarrow>
                    (case string_ok (bundle ''root'') of
                       None \<Rightarrow> writeErrorAndExit (''root parsing failed!'' @ [CHR 0x0A])
                     | Some rootCertificate \<Rightarrow>
                         Inr (outs @
                           [\<lparr>Filename = baseName @ ''-bundle.pem'',
                             Contents = certificateBundle @ [CHR 0x0A] @ rootCertificate,
                             IsBinary = False, Perms = octal 6 4 4\<rparr>,
                            \<lparr>Filename = baseName @ ''-root.pem'',
                             Contents = rootCertificate,
                             IsBinary = False, Perms = octal 6 4 4\<rparr>])))))"

text \<open>Lines 195 to 207.\<close>

definition ocsp_step :: "string \<Rightarrow> gomap \<Rightarrow> outputFile list \<Rightarrow> abort + outputFile list" where
  "ocsp_step baseName input outs =
     (case input ''ocspResponse'' of
        Some contents \<Rightarrow>
          (case assert_string contents of
             Inl a \<Rightarrow> Inl a
           | Inr encoded \<Rightarrow>
               (case DecodeString encoded of
                  Inl err \<Rightarrow>
                    writeErrorAndExit (''Failed to parse ocspResponse: '' @ err @ [CHR 0x0A])
                | Inr resp \<Rightarrow>
                    Inr (outs @ [\<lparr>Filename = baseName @ ''-response.der'', Contents = resp,
                                   IsBinary = True, Perms = octal 6 4 4\<rparr>])))
      | None \<Rightarrow> Inr outs)"

text \<open>
  The blocks in the order of the source, \<^verbatim>\<open>outs\<close> starting empty; \<open>extract_upto_csr\<close>
  is lines 119 to 166, \<open>extract_upto_bundle\<close> lines 119 to 193, \<open>extract_outs\<close> the whole
  of lines 119 to 207.
\<close>

definition extract_upto_csr :: "string \<Rightarrow> gomap \<Rightarrow> abort + outputFile list" where
  "extract_upto_csr baseName input =
     (case cert_step baseName input [] of
        Inl a \<Rightarrow> Inl a
      | Inr outs1 \<Rightarrow>
     (case key_step baseName input outs1 of
        Inl a \<Rightarrow> Inl a
      | Inr outs2 \<Rightarrow>
     (case encrypted_key_step baseName input outs2 of
        Inl a \<Rightarrow> Inl a
      | Inr outs3 \<Rightarrow> csr_step baseName input outs3)))"

definition extract_upto_bundle :: "string \<Rightarrow> gomap \<Rightarrow> abort + outputFile list" where
  "extract_upto_bundle baseName input =
     (case extract_upto_csr baseName input of
        Inl a \<Rightarrow> Inl a
      | Inr outs4 \<Rightarrow> bundle_step baseName input outs4)"

definition extract_outs :: "string \<Rightarrow> gomap \<Rightarrow> abort + outputFile list" where
  "extract_outs baseName input =
     (case extract_upto_bundle baseName input of
        Inl a \<Rightarrow> Inl a
      | Inr outs5 \<Rightarrow> ocsp_step baseName input outs5)"

subsection \<open>Lines 209 to 234: the sinks\<close>

text \<open>
  What a run leaves behind: the bytes the program wrote to standard output, the bytes it
  wrote to the diagnostic stream, the files \<^verbatim>\<open>ioutil.WriteFile\<close> wrote (name, contents
  and the mode it was given, in order), and how the run ended. A panic is reported by
  the Go runtime after the program has stopped, not by the program: it is recorded in
  \<open>Status\<close> only, and \<open>Stderr\<close> holds what the program itself printed.
\<close>

datatype status =
    Returned
  | ExitStatus nat
  | Panic string string

record outcome =
  Stdout :: string
  Stderr :: string
  Written :: "(string \<times> string \<times> 32 word) list"
  Status :: status

definition start :: outcome where
  "start = \<lparr>Stdout = [], Stderr = [], Written = [], Status = Returned\<rparr>"

fun abort_outcome :: "abort \<Rightarrow> outcome" where
  "abort_outcome (Exited text code) = start\<lparr>Stderr := text, Status := ExitStatus code\<rparr>"
| "abort_outcome (Panicked dyn asserted) = start\<lparr>Status := Panic dyn asserted\<rparr>"

text \<open>Lines 22 to 28.\<close>

definition writeFile :: "stdlib \<Rightarrow> string \<Rightarrow> string \<Rightarrow> 32 word \<Rightarrow> outcome \<Rightarrow> outcome" where
  "writeFile lib filespec contents perms w =
     (case ioutil_WriteFile lib filespec contents perms of
        Some err \<Rightarrow> w\<lparr>Stderr := Stderr w @ err @ [CHR 0x0A], Status := ExitStatus 1\<rparr>
      | None \<Rightarrow> w\<lparr>Written := Written w @ [(filespec, contents, perms)]\<rparr>)"

text \<open>Lines 211 to 216: the loop that fills \<^verbatim>\<open>jsonOutputDict\<close>.\<close>

fun fill_dict :: "outputFile list \<Rightarrow> (string \<times> string) list \<Rightarrow> (string \<times> string) list" where
  "fill_dict [] jsonOutputDict = jsonOutputDict"
| "fill_dict (f # fs) jsonOutputDict =
     fill_dict fs
       (dict_set jsonOutputDict (Filename f)
          (if IsBinary f then EncodeToString (Contents f) else Contents f))"

text \<open>Lines 224 to 233: the loop over \<^verbatim>\<open>outs\<close>; a failed write ends the program.\<close>

fun write_each :: "stdlib \<Rightarrow> bool \<Rightarrow> outputFile list \<Rightarrow> outcome \<Rightarrow> outcome" where
  "write_each lib stdoutOutput [] w = w"
| "write_each lib stdoutOutput (f # fs) w =
     (if stdoutOutput then
        write_each lib stdoutOutput fs
          (w\<lparr>Stdout := Stdout w
                @ (if IsBinary f then EncodeToString (Contents f) else Contents f) @ [CHR 0x0A]\<rparr>)
      else
        (let w' = writeFile lib (Filename f) (Contents f) (Perms f) w
         in if Status w' = Returned then write_each lib stdoutOutput fs w' else w'))"

definition sink :: "stdlib \<Rightarrow> outputFile list \<Rightarrow> bool \<Rightarrow> bool \<Rightarrow> outcome" where
  "sink lib outs stdoutOutput jsonOutput =
     (if jsonOutput then
        (let jsonOutputDict = fill_dict outs [] in
         case json_Marshal jsonOutputDict of
           Inl err \<Rightarrow>
             start\<lparr>Stderr := ''Failed to marshal to JSON the following data: ''
                                @ fmt_map jsonOutputDict @ [CHR 0x0A],
                   Status := ExitStatus 1\<rparr>
         | Inr jsonData \<Rightarrow> start\<lparr>Stdout := jsonData @ [CHR 0x0A]\<rparr>)
      else write_each lib stdoutOutput outs start)"

subsection \<open>The function\<close>

definition writeOutput :: "stdlib \<Rightarrow> string \<Rightarrow> string \<Rightarrow> bool \<Rightarrow> bool \<Rightarrow> bool \<Rightarrow> outcome" where
  "writeOutput lib baseName fileData bare stdoutOutput jsonOutput =
     (case unwrap lib fileData bare of
        Inl a \<Rightarrow> abort_outcome a
      | Inr input \<Rightarrow>
          (case extract_outs baseName input of
             Inl a \<Rightarrow> abort_outcome a
           | Inr outs \<Rightarrow> sink lib outs stdoutOutput jsonOutput))"

section \<open>Libraries for worked examples\<close>

text \<open>
  The theorems below hold for every library. Their worked examples need one: a decoder
  that knows a single document and its decoding and refuses every other input, and a
  file system on which every write succeeds.
\<close>

definition one_response :: "string \<Rightarrow> Response \<Rightarrow> stdlib" where
  "one_response doc response =
     \<lparr>json_Unmarshal_map = (\<lambda>fileData. Inl ''json: unexpected input''),
      json_Unmarshal_Response =
        (\<lambda>fileData. if fileData = doc then Inr response else Inl ''json: unexpected input''),
      ioutil_WriteFile = (\<lambda>filespec contents perms. None)\<rparr>"

definition one_map :: "string \<Rightarrow> gomap \<Rightarrow> stdlib" where
  "one_map doc input =
     \<lparr>json_Unmarshal_map =
        (\<lambda>fileData. if fileData = doc then Inr input else Inl ''json: unexpected input''),
      json_Unmarshal_Response = (\<lambda>fileData. Inl ''json: unexpected input''),
      ioutil_WriteFile = (\<lambda>filespec contents perms. None)\<rparr>"

section \<open>Facts about the file modes\<close>

lemma octal_values:
  "octal 6 6 4 = 0x1B4" "octal 6 0 0 = 0x180" "octal 6 4 4 = 0x1A4"
  by (simp_all add: octal_def)

section \<open>Facts about the base64 codec\<close>

text \<open>
  The decoder undoes the encoder: the four digits of a group carry the 24 bits of its
  three bytes, and the decoder's table inverts the alphabet. So every byte string is the
  decoding of its own standard encoding.
\<close>

lemma decodeMap_encode_all: "\<forall>k \<in> set [0..<64]. decodeMap (encode k) = k"
  by code_simp

lemma decodeMap_encode: "k < 64 \<Longrightarrow> decodeMap (encode k) = k"
  using decodeMap_encode_all by simp

lemma and_63: "(x::nat) AND 63 = take_bit 6 x"
proof -
  have "(63::nat) = mask 6" by (simp add: mask_eq_exp_minus_1)
  then show ?thesis by (simp add: take_bit_eq_mask)
qed

lemma and_63_less: "(x::nat) AND 63 < 64"
  using take_bit_nat_less_exp [of 6 x] by (simp add: and_63)

lemma decodeMap_pad: "decodeMap padChar = 255"
  by code_simp

lemma pad_not_newline: "padChar \<noteq> CHR 0x0A" "padChar \<noteq> CHR 0x0D"
  by (simp_all add: padChar_def)

lemma bit_byte: "(a::nat) < 256 \<Longrightarrow> bit a n \<Longrightarrow> n < 8"
proof -
  assume a: "a < 256" and b: "bit a n"
  from a have "take_bit 8 a = a" by (simp add: take_bit_nat_eq_self_iff)
  with b have "bit (take_bit 8 a) n" by simp
  then show ?thesis by (simp add: bit_take_bit_iff)
qed

lemma repack:
  fixes a b c :: nat
  assumes "a < 256" "b < 256" "c < 256"
  defines "val \<equiv> push_bit 16 a OR push_bit 8 b OR c"
  shows "push_bit 18 (drop_bit 18 val AND 63) OR push_bit 12 (drop_bit 12 val AND 63)
           OR push_bit 6 (drop_bit 6 val AND 63) OR (val AND 63) = val"
proof (rule bit_eqI)
  fix n
  have A: "\<And>m. bit a m \<Longrightarrow> m < 8" and B: "\<And>m. bit b m \<Longrightarrow> m < 8" and C: "\<And>m. bit c m \<Longrightarrow> m < 8"
    using assms(1-3) by (auto dest: bit_byte)
  have hi: "bit val n \<Longrightarrow> n < 24"
    by (auto simp: val_def bit_simps dest: A B C)
  consider "n < 6" | "6 \<le> n" "n < 12" | "12 \<le> n" "n < 18" | "18 \<le> n" "n < 24" | "24 \<le> n"
    by linarith
  then show "bit (push_bit 18 (drop_bit 18 val AND 63) OR push_bit 12 (drop_bit 12 val AND 63)
           OR push_bit 6 (drop_bit 6 val AND 63) OR (val AND 63)) n = bit val n"
  proof cases
    case 1
    then show ?thesis by (auto simp: and_63 bit_simps)
  next
    case 2
    then show ?thesis by (auto simp: and_63 bit_simps)
  next
    case 3
    then show ?thesis by (auto simp: and_63 bit_simps)
  next
    case 4
    then show ?thesis by (auto simp: and_63 bit_simps)
  next
    case 5
    with hi have "\<not> bit val n" by auto
    with 5 show ?thesis by (auto simp: and_63 bit_simps)
  qed
qed

lemma unpack:
  fixes a b c :: nat
  assumes "a < 256" "b < 256" "c < 256"
  defines "val \<equiv> push_bit 16 a OR push_bit 8 b OR c"
  shows "take_bit 8 (drop_bit 16 val) = a" "take_bit 8 (drop_bit 8 val) = b" "take_bit 8 val = c"
proof -
  have A: "\<And>m. bit a m \<Longrightarrow> m < 8" and B: "\<And>m. bit b m \<Longrightarrow> m < 8" and C: "\<And>m. bit c m \<Longrightarrow> m < 8"
    using assms(1-3) by (auto dest: bit_byte)
  show "take_bit 8 (drop_bit 16 val) = a"
  proof (rule bit_eqI)
    fix n show "bit (take_bit 8 (drop_bit 16 val)) n = bit a n"
      by (auto simp: val_def bit_simps dest: A B C)
  qed
  show "take_bit 8 (drop_bit 8 val) = b"
  proof (rule bit_eqI)
    fix n show "bit (take_bit 8 (drop_bit 8 val)) n = bit b n"
      by (auto simp: val_def bit_simps dest: A B C)
  qed
  show "take_bit 8 val = c"
  proof (rule bit_eqI)
    fix n show "bit (take_bit 8 val) n = bit c n"
      by (auto simp: val_def bit_simps dest: A B C)
  qed
qed

lemma low_bits_zero:
  fixes a b :: nat
  assumes "a < 256" "b < 256"
  shows "(push_bit 16 a OR push_bit 8 b) AND 63 = 0"
    and "drop_bit 6 (push_bit 16 a) AND 63 = 0"
    and "push_bit 16 a AND 63 = 0"
proof -
  show "(push_bit 16 a OR push_bit 8 b) AND 63 = 0"
    by (rule bit_eqI) (auto simp: and_63 bit_simps)
  show "drop_bit 6 (push_bit 16 a) AND 63 = 0"
    by (rule bit_eqI) (auto simp: and_63 bit_simps)
  show "push_bit 16 a AND 63 = 0"
    by (rule bit_eqI) (auto simp: and_63 bit_simps)
qed

lemma quantum_bytes_4:
  assumes "push_bit 18 d0 OR push_bit 12 d1 OR push_bit 6 d2 OR d3 = (v::nat)"
  shows "quantum_bytes [d0, d1, d2, d3] = [char_of (drop_bit 16 v), char_of (drop_bit 8 v), char_of v]"
  using assms [symmetric] by (simp add: quantum_bytes_def)

lemma quantum_bytes_3:
  assumes "push_bit 18 d0 OR push_bit 12 d1 OR push_bit 6 d2 = (v::nat)"
  shows "quantum_bytes [d0, d1, d2] = [char_of (drop_bit 16 v), char_of (drop_bit 8 v)]"
  using assms [symmetric] by (simp add: quantum_bytes_def)

lemma quantum_bytes_2:
  assumes "push_bit 18 d0 OR push_bit 12 d1 = (v::nat)"
  shows "quantum_bytes [d0, d1] = [char_of (drop_bit 16 v)]"
  using assms [symmetric] by (simp add: quantum_bytes_def)

lemma quantum_bytes_three:
  fixes ca cb cc :: char
  defines "val \<equiv> push_bit 16 (of_char ca :: nat) OR push_bit 8 (of_char cb) OR of_char cc"
  shows "quantum_bytes [drop_bit 18 val AND 63, drop_bit 12 val AND 63,
                        drop_bit 6 val AND 63, val AND 63] = [ca, cb, cc]"
proof -
  have r: "push_bit 18 (drop_bit 18 val AND 63) OR push_bit 12 (drop_bit 12 val AND 63)
           OR push_bit 6 (drop_bit 6 val AND 63) OR (val AND 63) = val"
    unfolding val_def by (rule repack) simp_all
  have "take_bit 8 (drop_bit 16 val) = of_char ca"
    unfolding val_def by (rule unpack) simp_all
  then have 1: "char_of (drop_bit 16 val) = ca" by (simp only: char_of_eq_iff)
  have "take_bit 8 (drop_bit 8 val) = of_char cb"
    unfolding val_def by (rule unpack) simp_all
  then have 2: "char_of (drop_bit 8 val) = cb" by (simp only: char_of_eq_iff)
  have "take_bit 8 val = of_char cc"
    unfolding val_def by (rule unpack) simp_all
  then have 3: "char_of val = cc" by (simp only: char_of_eq_iff)
  show ?thesis
    by (simp only: quantum_bytes_4 [OF r] 1 2 3)
qed

lemma quantum_bytes_two:
  fixes ca cb :: char
  defines "val \<equiv> push_bit 16 (of_char ca :: nat) OR push_bit 8 (of_char cb)"
  shows "quantum_bytes [drop_bit 18 val AND 63, drop_bit 12 val AND 63, drop_bit 6 val AND 63]
           = [ca, cb]"
proof -
  have v: "val = push_bit 16 (of_char ca) OR push_bit 8 (of_char cb) OR 0"
    by (simp add: val_def)
  have z: "val AND 63 = 0"
    unfolding val_def by (rule low_bits_zero) simp_all
  have "push_bit 18 (drop_bit 18 val AND 63) OR push_bit 12 (drop_bit 12 val AND 63)
           OR push_bit 6 (drop_bit 6 val AND 63) OR (val AND 63) = val"
    unfolding v by (rule repack) simp_all
  then have r: "push_bit 18 (drop_bit 18 val AND 63) OR push_bit 12 (drop_bit 12 val AND 63)
           OR push_bit 6 (drop_bit 6 val AND 63) = val"
    by (simp only: z or.right_neutral)
  have "take_bit 8 (drop_bit 16 val) = of_char ca"
    unfolding v by (rule unpack) simp_all
  then have 1: "char_of (drop_bit 16 val) = ca" by (simp only: char_of_eq_iff)
  have "take_bit 8 (drop_bit 8 val) = of_char cb"
    unfolding v by (rule unpack) simp_all
  then have 2: "char_of (drop_bit 8 val) = cb" by (simp only: char_of_eq_iff)
  show ?thesis
    by (simp only: quantum_bytes_3 [OF r] 1 2)
qed

lemma quantum_bytes_one:
  fixes ca :: char
  defines "val \<equiv> push_bit 16 (of_char ca :: nat)"
  shows "quantum_bytes [drop_bit 18 val AND 63, drop_bit 12 val AND 63] = [ca]"
proof -
  have v: "val = push_bit 16 (of_char ca) OR push_bit 8 0 OR 0"
    by (simp add: val_def)
  have z: "val AND 63 = 0"
    unfolding val_def by (rule low_bits_zero(3) [of _ 0]) simp_all
  have z': "drop_bit 6 val AND 63 = 0"
    unfolding val_def by (rule low_bits_zero(2) [of _ 0]) simp_all
  have "push_bit 18 (drop_bit 18 val AND 63) OR push_bit 12 (drop_bit 12 val AND 63)
           OR push_bit 6 (drop_bit 6 val AND 63) OR (val AND 63) = val"
    unfolding v by (rule repack) simp_all
  then have r: "push_bit 18 (drop_bit 18 val AND 63) OR push_bit 12 (drop_bit 12 val AND 63) = val"
    by (simp only: z z' or.right_neutral push_bit_of_0)
  have "take_bit 8 (drop_bit 16 val) = of_char ca"
    unfolding v by (rule unpack) simp_all
  then have 1: "char_of (drop_bit 16 val) = ca" by (simp only: char_of_eq_iff)
  show ?thesis
    by (simp only: quantum_bytes_2 [OF r] 1)
qed

lemma decode_loop_digit:
  assumes "k < 64"
  shows "decode_loop j dbuf si n (encode k # cs) =
           (if j = 3 then
              (case decode_loop 0 [] (Suc si) n cs of
                 (bs, err) \<Rightarrow> (quantum_bytes (dbuf @ [k]) @ bs, err))
            else decode_loop (Suc j) (dbuf @ [k]) (Suc si) n cs)"
  using assms by (simp add: decodeMap_encode)

lemma decode_loop_pad:
  "decode_loop j dbuf si n (padChar # cs) = decode_padding j dbuf (Suc si) n cs"
  by (simp add: decodeMap_pad pad_not_newline)

lemma decode_padding_end:
  "decode_padding (Suc (Suc (Suc 0))) dbuf si n [] = (quantum_bytes dbuf, None)"
  "decode_padding (Suc (Suc 0)) dbuf si n [padChar] = (quantum_bytes dbuf, None)"
  by (simp_all add: decode_padding_def pad_not_newline)

lemma decode_loop_EncodeToString:
  "decode_loop 0 [] si n (EncodeToString bs) = (bs, None)"
proof (induction bs arbitrary: si rule: EncodeToString.induct)
  case 1
  show ?case by simp
next
  case (2 a)
  show ?case
    by (simp add: Let_def decode_loop_digit and_63_less decode_loop_pad decode_padding_end
          quantum_bytes_one del: decode_loop.simps drop_bit_or drop_bit_and push_bit_or)
next
  case (3 a b)
  show ?case
    by (simp add: Let_def decode_loop_digit and_63_less decode_loop_pad decode_padding_end
          quantum_bytes_two del: decode_loop.simps drop_bit_or drop_bit_and push_bit_or)
next
  case (4 a b c src)
  show ?case
    by (simp add: Let_def decode_loop_digit and_63_less "4.IH" quantum_bytes_three
          del: decode_loop.simps drop_bit_or drop_bit_and push_bit_or)
qed

lemma DecodeString_EncodeToString: "DecodeString (EncodeToString bs) = Inr bs"
  by (simp add: DecodeString_def decode_loop_EncodeToString)

section \<open>Facts about the blocks\<close>


lemma string_ok_None: "string_ok x = None \<longleftrightarrow> (\<forall>s. x \<noteq> Some (IString s))"
  by (auto simp: string_ok_def split: option.splits iface.splits)

text \<open>Each block only appends to outs, and what it appends carries its own names.\<close>

lemma cert_step_appends:
  assumes "cert_step b i outs = Inr outs'"
  shows "\<exists>new. outs' = outs @ new \<and> (\<forall>f \<in> set new. Filename f = b @ ''.pem'')"
  using assms by (auto simp: cert_step_def split: sum.splits if_splits)

lemma key_step_appends:
  assumes "key_step b i outs = Inr outs'"
  shows "\<exists>new. outs' = outs @ new \<and> (\<forall>f \<in> set new. Filename f = b @ ''-key.pem'')"
  using assms by (auto simp: key_step_def split: sum.splits if_splits)

lemma encrypted_key_step_appends:
  assumes "encrypted_key_step b i outs = Inr outs'"
  shows "\<exists>new. outs' = outs @ new \<and> (\<forall>f \<in> set new. Filename f = b @ ''-key.enc'')"
  using assms by (auto simp: encrypted_key_step_def split: sum.splits option.splits)

lemma csr_step_appends:
  assumes "csr_step b i outs = Inr outs'"
  shows "\<exists>new. outs' = outs @ new \<and> (\<forall>f \<in> set new. Filename f = b @ ''.csr'')"
  using assms by (auto simp: csr_step_def split: sum.splits if_splits)

lemma bundle_step_appends:
  assumes "bundle_step b i outs = Inr outs'"
  shows "\<exists>new. outs' = outs @ new
           \<and> (\<forall>f \<in> set new. Filename f = b @ ''-bundle.pem'' \<or> Filename f = b @ ''-root.pem'')"
  using assms
  by (auto simp: bundle_step_def writeErrorAndExit_def split: option.splits)

lemma ocsp_step_appends:
  assumes "ocsp_step b i outs = Inr outs'"
  shows "\<exists>new. outs' = outs @ new \<and> (\<forall>f \<in> set new. Filename f = b @ ''-response.der'')"
  using assms
  by (auto simp: ocsp_step_def writeErrorAndExit_def split: option.splits sum.splits)

lemma extract_upto_csr_names:
  assumes "extract_upto_csr b i = Inr outs"
  shows "\<forall>f \<in> set outs. Filename f \<in> {b @ ''.pem'', b @ ''-key.pem'', b @ ''-key.enc'', b @ ''.csr''}"
proof -
  from assms obtain o1 o2 o3 where
    1: "cert_step b i [] = Inr o1" and 2: "key_step b i o1 = Inr o2"
    and 3: "encrypted_key_step b i o2 = Inr o3" and 4: "csr_step b i o3 = Inr outs"
    by (auto simp: extract_upto_csr_def split: sum.splits)
  from cert_step_appends [OF 1] key_step_appends [OF 2]
    encrypted_key_step_appends [OF 3] csr_step_appends [OF 4]
  show ?thesis by auto
qed

lemma write_each_Written:
  "\<exists>more. Written (write_each lib so fs w) = Written w @ more"
proof (induction fs arbitrary: w)
  case Nil
  then show ?case by simp
next
  case (Cons f fs)
  show ?case
  proof (cases so)
    case True
    with Cons.IH [of "w\<lparr>Stdout := Stdout w
        @ (if IsBinary f then EncodeToString (Contents f) else Contents f) @ [CHR 0x0A]\<rparr>"]
    show ?thesis by simp
  next
    case False
    show ?thesis
    proof (cases "ioutil_WriteFile lib (Filename f) (Contents f) (Perms f)")
      case None
      with False Cons.IH [of "w\<lparr>Written := Written w @ [(Filename f, Contents f, Perms f)]\<rparr>"]
      show ?thesis by (auto simp: writeFile_def Let_def)
    next
      case (Some err)
      with False show ?thesis by (simp add: writeFile_def Let_def)
    qed
  qed
qed

lemma write_each_all_written:
  assumes "\<forall>f \<in> set fs. ioutil_WriteFile lib (Filename f) (Contents f) (Perms f) = None"
    and "Status w = Returned"
  shows "write_each lib False fs w =
           w\<lparr>Written := Written w @ map (\<lambda>f. (Filename f, Contents f, Perms f)) fs\<rparr>"
  using assms
proof (induction fs arbitrary: w)
  case Nil
  then show ?case by simp
next
  case (Cons f fs)
  let ?w = "w\<lparr>Written := Written w @ [(Filename f, Contents f, Perms f)]\<rparr>"
  have "writeFile lib (Filename f) (Contents f) (Perms f) w = ?w"
    using Cons.prems(1) by (simp add: writeFile_def)
  moreover have "write_each lib False fs ?w =
      ?w\<lparr>Written := Written ?w @ map (\<lambda>f. (Filename f, Contents f, Perms f)) fs\<rparr>"
    using Cons.prems by (intro Cons.IH) simp_all
  ultimately show ?case using Cons.prems(2) by simp
qed

lemma writeOutput_unwrapped:
  assumes "unwrap lib fileData bare = Inr input"
  shows "writeOutput lib baseName fileData bare so jo =
           (case extract_outs baseName input of
              Inl a \<Rightarrow> abort_outcome a
            | Inr outs \<Rightarrow> sink lib outs so jo)"
  using assms by (simp add: writeOutput_def)

lemma abort_outcome_nothing:
  "Stdout (abort_outcome a) = [] \<and> Written (abort_outcome a) = [] \<and> Status (abort_outcome a) \<noteq> Returned"
  by (cases a) (simp_all add: start_def)

text \<open>The blocks after the certificate never read the two certificate keys.\<close>

lemma later_steps_ignore_key:
  assumes "k \<notin> {''key'', ''private_key'', ''encrypted_key'', ''csr'', ''certificate_request'',
               ''result'', ''ocspResponse''}"
  shows "key_step b (input(k := x)) outs = key_step b input outs"
    and "encrypted_key_step b (input(k := x)) outs = encrypted_key_step b input outs"
    and "csr_step b (input(k := x)) outs = csr_step b input outs"
    and "bundle_step b (input(k := x)) outs = bundle_step b input outs"
    and "ocsp_step b (input(k := x)) outs = ocsp_step b input outs"
  using assms
  by (auto simp: key_step_def encrypted_key_step_def csr_step_def bundle_step_def
        ocsp_step_def lookup_string_def split: option.splits)

lemma cert_step_ignores_alias:
  assumes "input ''cert'' = Some v"
  shows "cert_step b (input(''certificate'' := alias)) outs = cert_step b input outs"
  using assms by (simp add: cert_step_def lookup_string_def)

lemma cert_step_ignores_key:
  assumes "k \<noteq> ''cert''" and "k \<noteq> ''certificate''"
  shows "cert_step b (input(k := x)) outs = cert_step b input outs"
  using assms by (auto simp: cert_step_def lookup_string_def split: option.splits)

lemma extract_outs_steps:
  "extract_outs b input =
     (case cert_step b input [] of Inl a \<Rightarrow> Inl a | Inr o1 \<Rightarrow>
     (case key_step b input o1 of Inl a \<Rightarrow> Inl a | Inr o2 \<Rightarrow>
     (case encrypted_key_step b input o2 of Inl a \<Rightarrow> Inl a | Inr o3 \<Rightarrow>
     (case csr_step b input o3 of Inl a \<Rightarrow> Inl a | Inr o4 \<Rightarrow>
     (case bundle_step b input o4 of Inl a \<Rightarrow> Inl a | Inr o5 \<Rightarrow>
      ocsp_step b input o5)))))"
  by (simp add: extract_outs_def extract_upto_bundle_def extract_upto_csr_def split: sum.splits)

lemma extract_outs_ignores_alias:
  assumes "input ''cert'' = Some v"
  shows "extract_outs b (input(''certificate'' := alias)) = extract_outs b input"
  by (simp add: extract_outs_steps cert_step_ignores_alias [of input, OF assms]
        later_steps_ignore_key cong: sum.case_cong)

lemma extract_outs_ignores_key:
  assumes "k \<notin> {''cert'', ''certificate'', ''key'', ''private_key'', ''encrypted_key'', ''csr'',
               ''certificate_request'', ''result'', ''ocspResponse''}"
  shows "extract_outs b (input(k := x)) = extract_outs b input"
proof -
  from assms have c: "k \<noteq> ''cert''" "k \<noteq> ''certificate''"
    and l: "k \<notin> {''key'', ''private_key'', ''encrypted_key'', ''csr'', ''certificate_request'',
               ''result'', ''ocspResponse''}"
    by simp_all
  show ?thesis
    by (simp add: extract_outs_steps cert_step_ignores_key [OF c] later_steps_ignore_key [OF l]
          cong: sum.case_cong)
qed

lemma DecodeString_error_text:
  assumes "DecodeString v = Inl err"
  shows "\<exists>off. err = ''illegal base64 data at input byte '' @ decimal off"
  using assms
  by (auto simp: DecodeString_def CorruptInputError_def split: prod.splits option.splits)

text \<open>The definitions a worked example unfolds.\<close>

lemmas eval_defs =
  writeOutput_def unwrap_def extract_outs_steps cert_step_def key_step_def
  encrypted_key_step_def csr_step_def bundle_step_def ocsp_step_def lookup_string_def
  assert_string_def map_ok_def string_ok_def writeErrorAndExit_def sink_def writeFile_def
  start_def one_response_def one_map_def

section \<open>Properties\<close>

subsection \<open>The certificate\<close>

text \<open>
  C1, as amended. In non-bare mode, when the decoded envelope has \<^verbatim>\<open>success = true\<close> and
  its \<^verbatim>\<open>result\<close> holds a non-empty string \<open>s\<close> under \<^verbatim>\<open>cert\<close>: the blocks read the
  envelope's \<^verbatim>\<open>result\<close>; the certificate block appends the artifact \<^verbatim>\<open><base>.pem\<close>
  with contents \<open>s\<close>, not binary, mode \<^verbatim>\<open>0664\<close>; the run's artifacts are the result of
  the five later blocks started on that one artifact, so whenever they complete it is the
  first of \<^verbatim>\<open>outs\<close>; and with the default flags the first file written is
  \<^verbatim>\<open><base>.pem\<close> with contents \<open>s\<close> and mode \<^verbatim>\<open>0664\<close>, provided that write succeeds.
\<close>

theorem cert_artifact_for_nonempty_cert:
  assumes "json_Unmarshal_Response lib fileData = Inr response"
    and "Success response"
    and "Result response ''cert'' = Some (IString s)"
    and "s \<noteq> []"
  shows "unwrap lib fileData False = Inr (Result response)
       \<and> cert_step baseName (Result response) [] =
           Inr [\<lparr>Filename = baseName @ ''.pem'', Contents = s, IsBinary = False, Perms = octal 6 6 4\<rparr>]
       \<and> extract_outs baseName (Result response) =
           (case key_step baseName (Result response)
                   [\<lparr>Filename = baseName @ ''.pem'', Contents = s,
                      IsBinary = False, Perms = octal 6 6 4\<rparr>] of
              Inl a \<Rightarrow> Inl a | Inr outs2 \<Rightarrow>
           (case encrypted_key_step baseName (Result response) outs2 of
              Inl a \<Rightarrow> Inl a | Inr outs3 \<Rightarrow>
           (case csr_step baseName (Result response) outs3 of
              Inl a \<Rightarrow> Inl a | Inr outs4 \<Rightarrow>
           (case bundle_step baseName (Result response) outs4 of
              Inl a \<Rightarrow> Inl a | Inr outs5 \<Rightarrow>
            ocsp_step baseName (Result response) outs5))))
       \<and> (\<forall>outs. extract_outs baseName (Result response) = Inr outs \<longrightarrow>
            (\<exists>rest. outs = \<lparr>Filename = baseName @ ''.pem'', Contents = s,
                               IsBinary = False, Perms = octal 6 6 4\<rparr> # rest))
       \<and> (\<forall>outs. extract_outs baseName (Result response) = Inr outs
               \<and> ioutil_WriteFile lib (baseName @ ''.pem'') s (octal 6 6 4) = None \<longrightarrow>
            (\<exists>more. Written (writeOutput lib baseName fileData False False False) =
                       (baseName @ ''.pem'', s, octal 6 6 4) # more))"
proof -
  let ?input = "Result response"
  let ?A = "\<lparr>Filename = baseName @ ''.pem'', Contents = s, IsBinary = False, Perms = octal 6 6 4\<rparr>"
  have U: "unwrap lib fileData False = Inr ?input"
    using assms(1,2) by (simp add: unwrap_def)
  have C: "cert_step baseName ?input outs0 = Inr (outs0 @ [?A])" for outs0
    using assms(3,4) by (simp add: cert_step_def lookup_string_def assert_string_def)
  have first: "\<exists>rest. outs = ?A # rest" if E: "extract_outs baseName ?input = Inr outs" for outs
  proof -
    from E obtain o2 o3 o4 o5 where
      2: "key_step baseName ?input [?A] = Inr o2"
      and 3: "encrypted_key_step baseName ?input o2 = Inr o3"
      and 4: "csr_step baseName ?input o3 = Inr o4"
      and 5: "bundle_step baseName ?input o4 = Inr o5"
      and 6: "ocsp_step baseName ?input o5 = Inr outs"
      using C [of "[]"]
      by (auto simp: extract_outs_def extract_upto_bundle_def extract_upto_csr_def split: sum.splits)
    from key_step_appends [OF 2] encrypted_key_step_appends [OF 3] csr_step_appends [OF 4]
      bundle_step_appends [OF 5] ocsp_step_appends [OF 6]
    show ?thesis by auto
  qed
  have files: "\<exists>more. Written (writeOutput lib baseName fileData False False False) =
                       (baseName @ ''.pem'', s, octal 6 6 4) # more"
    if E: "extract_outs baseName ?input = Inr outs"
      and W: "ioutil_WriteFile lib (baseName @ ''.pem'') s (octal 6 6 4) = None" for outs
  proof -
    from first [OF E] obtain rest where outs: "outs = ?A # rest" ..
    let ?w = "start\<lparr>Written := [(baseName @ ''.pem'', s, octal 6 6 4)]\<rparr>"
    have "writeOutput lib baseName fileData False False False = write_each lib False rest ?w"
      using U E W outs by (simp add: writeOutput_def sink_def writeFile_def start_def)
    moreover obtain more where "Written (write_each lib False rest ?w) = Written ?w @ more"
      using write_each_Written by blast
    ultimately show ?thesis by (simp add: start_def)
  qed
  have run: "extract_outs baseName ?input =
           (case key_step baseName ?input [?A] of Inl a \<Rightarrow> Inl a | Inr outs2 \<Rightarrow>
           (case encrypted_key_step baseName ?input outs2 of Inl a \<Rightarrow> Inl a | Inr outs3 \<Rightarrow>
           (case csr_step baseName ?input outs3 of Inl a \<Rightarrow> Inl a | Inr outs4 \<Rightarrow>
           (case bundle_step baseName ?input outs4 of Inl a \<Rightarrow> Inl a | Inr outs5 \<Rightarrow>
            ocsp_step baseName ?input outs5))))"
    using C [of "[]"] by (simp add: extract_outs_steps)
  have c0: "cert_step baseName ?input [] = Inr [?A]"
    using C [of "[]"] by simp
  from U c0 run first files show ?thesis by blast
qed

text \<open>
  An instance of C1 as amended: the envelope \<^verbatim>\<open>{"success":true,"result":{"cert":"CERTDATA"}}\<close>,
  base name \<^verbatim>\<open>cert\<close>, default flags.
\<close>

theorem cert_artifact_for_nonempty_cert_witness:
  \<open>json_Unmarshal_Response
      (one_response ''{"success":true,"result":{"cert":"CERTDATA"}}''
         \<lparr>Success = True, Result = [''cert'' \<mapsto> IString ''CERTDATA''], Errors = [], Messages = []\<rparr>)
      ''{"success":true,"result":{"cert":"CERTDATA"}}''
    = Inr \<lparr>Success = True, Result = [''cert'' \<mapsto> IString ''CERTDATA''], Errors = [], Messages = []\<rparr>
   \<and> cert_step ''cert'' [''cert'' \<mapsto> IString ''CERTDATA''] [] =
       Inr [\<lparr>Filename = ''cert.pem'', Contents = ''CERTDATA'', IsBinary = False, Perms = octal 6 6 4\<rparr>]
   \<and> Written (writeOutput
        (one_response ''{"success":true,"result":{"cert":"CERTDATA"}}''
           \<lparr>Success = True, Result = [''cert'' \<mapsto> IString ''CERTDATA''], Errors = [], Messages = []\<rparr>)
        ''cert'' ''{"success":true,"result":{"cert":"CERTDATA"}}'' False False False)
     = [(''cert.pem'', ''CERTDATA'', octal 6 6 4)]\<close>
proof -
  let ?doc = \<open>''{"success":true,"result":{"cert":"CERTDATA"}}''\<close>
  let ?r = "\<lparr>Success = True, Result = [''cert'' \<mapsto> IString ''CERTDATA''], Errors = [], Messages = []\<rparr>"
  have dec: "json_Unmarshal_Response (one_response ?doc ?r) ?doc = Inr ?r"
    by (simp add: one_response_def)
  have ok: "Success ?r" and c: "Result ?r ''cert'' = Some (IString ''CERTDATA'')"
    and ne: "''CERTDATA'' \<noteq> []"
    by simp_all
  have w: "Written (writeOutput (one_response ?doc ?r) ''cert'' ?doc False False False)
             = [(''cert.pem'', ''CERTDATA'', octal 6 6 4)]"
    by (simp add: eval_defs)
  from cert_artifact_for_nonempty_cert [OF dec ok c ne, of "''cert''"] dec w
  show ?thesis by simp
qed

text \<open>
  C1 as stated, without the restriction to a non-empty \<open>s\<close>, fails at \<open>s = ""\<close>: line 124
  guards the append with \<^verbatim>\<open>cert != ""\<close>, so the run returns normally, having collected no
  artifact and written no file.
\<close>

theorem empty_cert_counterexample:
  \<open>writeOutput
      (one_response ''{"success":true,"result":{"cert":""}}''
         \<lparr>Success = True, Result = [''cert'' \<mapsto> IString []], Errors = [], Messages = []\<rparr>)
      ''cert'' ''{"success":true,"result":{"cert":""}}'' False False False
    = \<lparr>Stdout = [], Stderr = [], Written = [], Status = Returned\<rparr>
   \<and> extract_outs ''cert'' [''cert'' \<mapsto> IString []] = Inr []\<close>
  by (simp add: eval_defs)

subsection \<open>An envelope that reports failure\<close>

text \<open>
  C2. In non-bare mode, when the decoded envelope has \<^verbatim>\<open>success = false\<close>, the run
  writes \<^verbatim>\<open>Request failed:\<close> and then the text of each error message, one per line
  after a tab, to the diagnostic stream, writes nothing to standard output, writes no
  file, and exits with status 1: the artifact blocks are never reached. This holds for
  every base name and every setting of the two output flags.
\<close>

theorem request_failed_no_artifacts:
  assumes "json_Unmarshal_Response lib fileData = Inr response"
    and "\<not> Success response"
  shows "writeOutput lib baseName fileData False stdoutOutput jsonOutput =
           \<lparr>Stdout = [],
            Stderr = ''Request failed:'' @ [CHR 0x0A]
                       @ concat (map (\<lambda>msg. [CHR 0x09] @ Message msg @ [CHR 0x0A]) (Errors response)),
            Written = [],
            Status = ExitStatus 1\<rparr>"
  using assms by (simp add: writeOutput_def unwrap_def start_def)

text \<open>
  An instance of C2: an envelope with two error messages, and with a certificate in its
  \<^verbatim>\<open>result\<close> that is not extracted.
\<close>

theorem request_failed_no_artifacts_witness:
  \<open>json_Unmarshal_Response
      (one_response ''{"success":false,"result":{"cert":"C"},"errors":[{"message":"denied"},{"message":"try later"}]}''
         \<lparr>Success = False, Result = [''cert'' \<mapsto> IString ''C''],
          Errors = [\<lparr>Code = 0, Message = ''denied''\<rparr>, \<lparr>Code = 0, Message = ''try later''\<rparr>],
          Messages = []\<rparr>)
      ''{"success":false,"result":{"cert":"C"},"errors":[{"message":"denied"},{"message":"try later"}]}''
    = Inr \<lparr>Success = False, Result = [''cert'' \<mapsto> IString ''C''],
          Errors = [\<lparr>Code = 0, Message = ''denied''\<rparr>, \<lparr>Code = 0, Message = ''try later''\<rparr>],
          Messages = []\<rparr>
   \<and> writeOutput
      (one_response ''{"success":false,"result":{"cert":"C"},"errors":[{"message":"denied"},{"message":"try later"}]}''
         \<lparr>Success = False, Result = [''cert'' \<mapsto> IString ''C''],
          Errors = [\<lparr>Code = 0, Message = ''denied''\<rparr>, \<lparr>Code = 0, Message = ''try later''\<rparr>],
          Messages = []\<rparr>)
      ''cert''
      ''{"success":false,"result":{"cert":"C"},"errors":[{"message":"denied"},{"message":"try later"}]}''
      False False False
    = \<lparr>Stdout = [],
       Stderr = ''Request failed:'' @ [CHR 0x0A] @ [CHR 0x09] @ ''denied'' @ [CHR 0x0A]
                  @ [CHR 0x09] @ ''try later'' @ [CHR 0x0A],
       Written = [],
       Status = ExitStatus 1\<rparr>\<close>
proof -
  let ?doc = \<open>''{"success":false,"result":{"cert":"C"},"errors":[{"message":"denied"},{"message":"try later"}]}''\<close>
  let ?r = "\<lparr>Success = False, Result = [''cert'' \<mapsto> IString ''C''],
          Errors = [\<lparr>Code = 0, Message = ''denied''\<rparr>, \<lparr>Code = 0, Message = ''try later''\<rparr>],
          Messages = []\<rparr>"
  have dec: "json_Unmarshal_Response (one_response ?doc ?r) ?doc = Inr ?r"
    by (simp add: one_response_def)
  have fail: "\<not> Success ?r" by simp
  show ?thesis
    using dec request_failed_no_artifacts [OF dec fail, of "''cert''" False False]
    by simp
qed

subsection \<open>The bundle\<close>

text \<open>
  C3. Let \<open>input\<close> be the unwrapped mapping, with a mapping under \<^verbatim>\<open>result\<close> that has a
  mapping under \<^verbatim>\<open>bundle\<close>, in which \<^verbatim>\<open>bundle\<close> or \<^verbatim>\<open>root\<close> is not a string (absent,
  or of another type). Then the bundle block, whatever \<^verbatim>\<open>outs\<close> holds, stops the program
  through \<^verbatim>\<open>writeErrorAndExit\<close> with \<^verbatim>\<open>inner bundle parsing failed!\<close> (when the chain is
  missing) or \<^verbatim>\<open>root parsing failed!\<close> (otherwise); the blocks together stop where the
  four earlier blocks stop, and with this diagnostic when they complete; a run that
  reaches the block ends with exactly that diagnostic, exit status 1 and no output; and every run on such a mapping fails without any artifact: nothing on
  standard output, no file, and a status other than a normal return.
\<close>

theorem incomplete_bundle_fails:
  assumes "unwrap lib fileData bare = Inr input"
    and "input ''result'' = Some (IMap result)"
    and "result ''bundle'' = Some (IMap bundle)"
    and "(\<forall>s. bundle ''bundle'' \<noteq> Some (IString s)) \<or> (\<forall>s. bundle ''root'' \<noteq> Some (IString s))"
  shows "(\<exists>text.
            text = (if \<forall>s. bundle ''bundle'' \<noteq> Some (IString s)
                    then ''inner bundle parsing failed!'' else ''root parsing failed!'') @ [CHR 0x0A]
            \<and> bundle_step baseName input outs = Inl (Exited text 1)
            \<and> (\<forall>outs4. extract_upto_csr baseName input = Inr outs4 \<longrightarrow>
                  writeOutput lib baseName fileData bare stdoutOutput jsonOutput =
                    \<lparr>Stdout = [], Stderr = text, Written = [], Status = ExitStatus 1\<rparr>))
       \<and> extract_outs baseName input =
           (case extract_upto_csr baseName input of
              Inl a \<Rightarrow> Inl a
            | Inr outs4 \<Rightarrow>
                Inl (Exited ((if \<forall>s. bundle ''bundle'' \<noteq> Some (IString s)
                              then ''inner bundle parsing failed!'' else ''root parsing failed!'')
                             @ [CHR 0x0A]) 1))
       \<and> Stdout (writeOutput lib baseName fileData bare stdoutOutput jsonOutput) = []
       \<and> Written (writeOutput lib baseName fileData bare stdoutOutput jsonOutput) = []
       \<and> Status (writeOutput lib baseName fileData bare stdoutOutput jsonOutput) \<noteq> Returned"
proof -
  let ?text = "(if \<forall>s. bundle ''bundle'' \<noteq> Some (IString s)
                then ''inner bundle parsing failed!'' else ''root parsing failed!'') @ [CHR 0x0A]"
  have B: "bundle_step baseName input outs0 = Inl (Exited ?text 1)" for outs0
  proof (cases "\<forall>s. bundle ''bundle'' \<noteq> Some (IString s)")
    case True
    then have "string_ok (bundle ''bundle'') = None" by (simp add: string_ok_None)
    with True assms(2,3) show ?thesis
      by (simp add: bundle_step_def map_ok_def writeErrorAndExit_def)
  next
    case False
    then obtain s where s: "bundle ''bundle'' = Some (IString s)" by auto
    with False assms(4) have "string_ok (bundle ''root'') = None" by (simp add: string_ok_None)
    with False s assms(2,3) show ?thesis
      by (simp add: bundle_step_def map_ok_def string_ok_def writeErrorAndExit_def)
  qed
  have E: "\<exists>a. extract_outs baseName input = Inl a"
    using B by (auto simp: extract_outs_def extract_upto_bundle_def split: sum.splits)
  then obtain a where a: "extract_outs baseName input = Inl a" ..
  have W: "writeOutput lib baseName fileData bare stdoutOutput jsonOutput = abort_outcome a"
    using writeOutput_unwrapped [OF assms(1)] a by simp
  have R: "writeOutput lib baseName fileData bare stdoutOutput jsonOutput =
             \<lparr>Stdout = [], Stderr = ?text, Written = [], Status = ExitStatus 1\<rparr>"
    if "extract_upto_csr baseName input = Inr outs4" for outs4
    using that B [of outs4] writeOutput_unwrapped [OF assms(1)]
    by (simp add: extract_outs_def extract_upto_bundle_def start_def)
  have run: "extract_outs baseName input =
           (case extract_upto_csr baseName input of
              Inl a \<Rightarrow> Inl a
            | Inr outs4 \<Rightarrow> Inl (Exited ?text 1))"
    using B by (simp add: extract_outs_def extract_upto_bundle_def split: sum.splits)
  from B [of outs] R run W abort_outcome_nothing [of a] show ?thesis by auto
qed

text \<open>
  An instance of C3: a bundle with the chain and without the root, in bare mode.
\<close>

theorem incomplete_bundle_fails_witness:
  \<open>unwrap
      (one_map ''{"result":{"bundle":{"bundle":"CHAIN"}}}''
         [''result'' \<mapsto> IMap [''bundle'' \<mapsto> IMap [''bundle'' \<mapsto> IString ''CHAIN'']]])
      ''{"result":{"bundle":{"bundle":"CHAIN"}}}'' True
    = Inr [''result'' \<mapsto> IMap [''bundle'' \<mapsto> IMap [''bundle'' \<mapsto> IString ''CHAIN'']]]
   \<and> writeOutput
      (one_map ''{"result":{"bundle":{"bundle":"CHAIN"}}}''
         [''result'' \<mapsto> IMap [''bundle'' \<mapsto> IMap [''bundle'' \<mapsto> IString ''CHAIN'']]])
      ''cert'' ''{"result":{"bundle":{"bundle":"CHAIN"}}}'' True False False
    = \<lparr>Stdout = [], Stderr = ''root parsing failed!'' @ [CHR 0x0A], Written = [],
       Status = ExitStatus 1\<rparr>\<close>
proof -
  let ?doc = \<open>''{"result":{"bundle":{"bundle":"CHAIN"}}}''\<close>
  let ?inner = "[''bundle'' \<mapsto> IString ''CHAIN'']"
  let ?result = "[''bundle'' \<mapsto> IMap ?inner]"
  let ?m = "[''result'' \<mapsto> IMap ?result]"
  have u: "unwrap (one_map ?doc ?m) ?doc True = Inr ?m"
    by (simp add: unwrap_def one_map_def)
  have r: "?m ''result'' = Some (IMap ?result)" and b: "?result ''bundle'' = Some (IMap ?inner)"
    by simp_all
  have missing: "(\<forall>s. ?inner ''bundle'' \<noteq> Some (IString s)) \<or> (\<forall>s. ?inner ''root'' \<noteq> Some (IString s))"
    by simp
  have scalars: "extract_upto_csr ''cert'' ?m = Inr []"
    by (simp add: extract_upto_csr_def cert_step_def key_step_def encrypted_key_step_def
          csr_step_def lookup_string_def)
  from incomplete_bundle_fails [OF u r b missing, of "''cert''" "[]" False False]
  obtain msg where
    msg: "msg = (if \<forall>s. ?inner ''bundle'' \<noteq> Some (IString s)
                   then ''inner bundle parsing failed!'' else ''root parsing failed!'') @ [CHR 0x0A]"
    and run: "\<forall>outs4. extract_upto_csr ''cert'' ?m = Inr outs4 \<longrightarrow>
                writeOutput (one_map ?doc ?m) ''cert'' ?doc True False False =
                  \<lparr>Stdout = [], Stderr = msg, Written = [], Status = ExitStatus 1\<rparr>"
    by blast
  from run scalars have "writeOutput (one_map ?doc ?m) ''cert'' ?doc True False False =
      \<lparr>Stdout = [], Stderr = msg, Written = [], Status = ExitStatus 1\<rparr>"
    by blast
  moreover from msg have "msg = ''root parsing failed!'' @ [CHR 0x0A]" by simp
  ultimately show ?thesis using u by simp
qed

text \<open>
  C4. Let \<open>input\<close> have a mapping under \<^verbatim>\<open>result\<close> that has a mapping under \<^verbatim>\<open>bundle\<close>
  with the strings \<open>b\<close> under \<^verbatim>\<open>bundle\<close> and \<open>r\<close> under \<^verbatim>\<open>root\<close>. Then the bundle block
  appends exactly two artifacts, in this order: \<^verbatim>\<open><base>-bundle.pem\<close> with contents
  \<open>b\<close>, a newline and \<open>r\<close>, then \<^verbatim>\<open><base>-root.pem\<close> with contents \<open>r\<close>, both not
  binary and with mode \<^verbatim>\<open>0644\<close>. The blocks together stop where the four earlier blocks
  stop, and otherwise give the result of the last block on their artifacts followed by
  these two. Whenever all blocks complete, \<^verbatim>\<open>outs\<close> holds these two
  next to each other in that order and no other artifact with either name; and in file
  mode, when every write succeeds, the two files are written one after the other with
  mode \<^verbatim>\<open>0644\<close>.
\<close>

theorem complete_bundle_two_artifacts:
  assumes "input ''result'' = Some (IMap result)"
    and "result ''bundle'' = Some (IMap bundle)"
    and "bundle ''bundle'' = Some (IString b)"
    and "bundle ''root'' = Some (IString r)"
  shows "bundle_step baseName input outs =
           Inr (outs @
             [\<lparr>Filename = baseName @ ''-bundle.pem'', Contents = b @ [CHR 0x0A] @ r,
               IsBinary = False, Perms = octal 6 4 4\<rparr>,
              \<lparr>Filename = baseName @ ''-root.pem'', Contents = r,
               IsBinary = False, Perms = octal 6 4 4\<rparr>])
       \<and> extract_outs baseName input =
           (case extract_upto_csr baseName input of
              Inl a \<Rightarrow> Inl a
            | Inr outs4 \<Rightarrow>
                ocsp_step baseName input (outs4 @
                  [\<lparr>Filename = baseName @ ''-bundle.pem'', Contents = b @ [CHR 0x0A] @ r,
                    IsBinary = False, Perms = octal 6 4 4\<rparr>,
                   \<lparr>Filename = baseName @ ''-root.pem'', Contents = r,
                    IsBinary = False, Perms = octal 6 4 4\<rparr>]))
       \<and> (\<forall>outs'. extract_outs baseName input = Inr outs' \<longrightarrow>
            (\<exists>pre post.
               outs' = pre @
                 [\<lparr>Filename = baseName @ ''-bundle.pem'', Contents = b @ [CHR 0x0A] @ r,
                   IsBinary = False, Perms = octal 6 4 4\<rparr>,
                  \<lparr>Filename = baseName @ ''-root.pem'', Contents = r,
                   IsBinary = False, Perms = octal 6 4 4\<rparr>] @ post
               \<and> (\<forall>f \<in> set pre \<union> set post.
                     Filename f \<noteq> baseName @ ''-bundle.pem'' \<and> Filename f \<noteq> baseName @ ''-root.pem'')))
       \<and> (\<forall>outs' fileData bare.
             unwrap lib fileData bare = Inr input \<and> extract_outs baseName input = Inr outs'
             \<and> (\<forall>f \<in> set outs'. ioutil_WriteFile lib (Filename f) (Contents f) (Perms f) = None) \<longrightarrow>
            (\<exists>before after.
               Written (writeOutput lib baseName fileData bare False False) =
                 before @ [(baseName @ ''-bundle.pem'', b @ [CHR 0x0A] @ r, octal 6 4 4),
                           (baseName @ ''-root.pem'', r, octal 6 4 4)] @ after))"
proof -
  let ?B1 = "\<lparr>Filename = baseName @ ''-bundle.pem'', Contents = b @ [CHR 0x0A] @ r,
               IsBinary = False, Perms = octal 6 4 4\<rparr>"
  let ?B2 = "\<lparr>Filename = baseName @ ''-root.pem'', Contents = r,
               IsBinary = False, Perms = octal 6 4 4\<rparr>"
  have B: "bundle_step baseName input outs0 = Inr (outs0 @ [?B1, ?B2])" for outs0
    using assms by (simp add: bundle_step_def map_ok_def string_ok_def)
  have shape: "\<exists>pre post. outs' = pre @ [?B1, ?B2] @ post
       \<and> (\<forall>f \<in> set pre \<union> set post.
             Filename f \<noteq> baseName @ ''-bundle.pem'' \<and> Filename f \<noteq> baseName @ ''-root.pem'')"
    if E: "extract_outs baseName input = Inr outs'" for outs'
  proof -
    from E obtain o4 where 4: "extract_upto_csr baseName input = Inr o4"
      and 6: "ocsp_step baseName input (o4 @ [?B1, ?B2]) = Inr outs'"
      using B by (auto simp: extract_outs_def extract_upto_bundle_def split: sum.splits)
    from ocsp_step_appends [OF 6] obtain new where
      new: "outs' = (o4 @ [?B1, ?B2]) @ new" "\<forall>f \<in> set new. Filename f = baseName @ ''-response.der''"
      by blast
    have "\<forall>f \<in> set o4 \<union> set new.
            Filename f \<noteq> baseName @ ''-bundle.pem'' \<and> Filename f \<noteq> baseName @ ''-root.pem''"
      using extract_upto_csr_names [OF 4] new(2) by auto
    with new(1) show ?thesis by (intro exI [of _ o4] exI [of _ new]) simp
  qed
  have written: "\<exists>before after.
        Written (writeOutput lib baseName fileData bare False False) =
          before @ [(baseName @ ''-bundle.pem'', b @ [CHR 0x0A] @ r, octal 6 4 4),
                    (baseName @ ''-root.pem'', r, octal 6 4 4)] @ after"
    if U: "unwrap lib fileData bare = Inr input" and E: "extract_outs baseName input = Inr outs'"
      and W: "\<forall>f \<in> set outs'. ioutil_WriteFile lib (Filename f) (Contents f) (Perms f) = None"
    for outs' fileData bare
  proof -
    from shape [OF E] obtain pre post where outs': "outs' = pre @ [?B1, ?B2] @ post" by blast
    have "writeOutput lib baseName fileData bare False False =
            start\<lparr>Written := Written start @ map (\<lambda>f. (Filename f, Contents f, Perms f)) outs'\<rparr>"
      using writeOutput_unwrapped [OF U] E write_each_all_written [OF W, of start]
      by (simp add: sink_def start_def)
    then show ?thesis
      unfolding outs'
      by (intro exI [of _ "map (\<lambda>f. (Filename f, Contents f, Perms f)) pre"]
                exI [of _ "map (\<lambda>f. (Filename f, Contents f, Perms f)) post"])
         (simp add: start_def)
  qed
  have run: "extract_outs baseName input =
           (case extract_upto_csr baseName input of
              Inl a \<Rightarrow> Inl a
            | Inr outs4 \<Rightarrow> ocsp_step baseName input (outs4 @ [?B1, ?B2]))"
    using B by (simp add: extract_outs_def extract_upto_bundle_def split: sum.splits)
  from B [of outs] run shape written show ?thesis by blast
qed

text \<open>
  An instance of C4: chain \<^verbatim>\<open>CHAIN\<close>, root \<^verbatim>\<open>ROOT\<close>, bare mode, default flags.
\<close>

theorem complete_bundle_two_artifacts_witness:
  \<open>bundle_step ''cert''
      [''result'' \<mapsto> IMap [''bundle'' \<mapsto>
         IMap [''bundle'' \<mapsto> IString ''CHAIN'', ''root'' \<mapsto> IString ''ROOT'']]] []
    = Inr [\<lparr>Filename = ''cert-bundle.pem'', Contents = ''CHAIN'' @ [CHR 0x0A] @ ''ROOT'',
             IsBinary = False, Perms = octal 6 4 4\<rparr>,
           \<lparr>Filename = ''cert-root.pem'', Contents = ''ROOT'',
             IsBinary = False, Perms = octal 6 4 4\<rparr>]
   \<and> Written (writeOutput
        (one_map ''{"result":{"bundle":{"bundle":"CHAIN","root":"ROOT"}}}''
           [''result'' \<mapsto> IMap [''bundle'' \<mapsto>
              IMap [''bundle'' \<mapsto> IString ''CHAIN'', ''root'' \<mapsto> IString ''ROOT'']]])
        ''cert'' ''{"result":{"bundle":{"bundle":"CHAIN","root":"ROOT"}}}'' True False False)
     = [(''cert-bundle.pem'', ''CHAIN'' @ [CHR 0x0A] @ ''ROOT'', octal 6 4 4),
        (''cert-root.pem'', ''ROOT'', octal 6 4 4)]\<close>
proof -
  let ?doc = \<open>''{"result":{"bundle":{"bundle":"CHAIN","root":"ROOT"}}}''\<close>
  let ?inner = "[''bundle'' \<mapsto> IString ''CHAIN'', ''root'' \<mapsto> IString ''ROOT'']"
  let ?result = "[''bundle'' \<mapsto> IMap ?inner]"
  let ?m = "[''result'' \<mapsto> IMap ?result]"
  have r: "?m ''result'' = Some (IMap ?result)" and b: "?result ''bundle'' = Some (IMap ?inner)"
    and c: "?inner ''bundle'' = Some (IString ''CHAIN'')"
    and t: "?inner ''root'' = Some (IString ''ROOT'')"
    by simp_all
  have w: "Written (writeOutput (one_map ?doc ?m) ''cert'' ?doc True False False)
     = [(''cert-bundle.pem'', ''CHAIN'' @ [CHR 0x0A] @ ''ROOT'', octal 6 4 4),
        (''cert-root.pem'', ''ROOT'', octal 6 4 4)]"
    by (simp add: eval_defs)
  from complete_bundle_two_artifacts [of ?m ?result ?inner "''CHAIN''" "''ROOT''", OF r b c t,
      of "''cert''" "[]"] w
  show ?thesis by simp
qed

subsection \<open>The alias of the certificate\<close>

text \<open>
  C5. When \<^verbatim>\<open>cert\<close> is present with a string \<open>s\<close>, the certificate block uses \<open>s\<close>: it
  appends \<^verbatim>\<open><base>.pem\<close> with contents \<open>s\<close> when \<open>s\<close> is not empty and nothing
  otherwise. The key \<^verbatim>\<open>certificate\<close> is not consulted: replacing, adding or removing its
  value (\<open>alias\<close> is any value or none) changes neither the block's result nor the
  result of all blocks together. And in every completed run, an artifact named
  \<^verbatim>\<open><base>.pem\<close> has the contents \<open>s\<close>.
\<close>

theorem cert_wins_over_certificate:
  assumes "input ''cert'' = Some (IString s)"
  shows "cert_step baseName input outs =
           Inr (if s \<noteq> [] then
                  outs @ [\<lparr>Filename = baseName @ ''.pem'', Contents = s,
                            IsBinary = False, Perms = octal 6 6 4\<rparr>]
                else outs)
       \<and> cert_step baseName (input(''certificate'' := alias)) outs = cert_step baseName input outs
       \<and> extract_outs baseName (input(''certificate'' := alias)) = extract_outs baseName input
       \<and> (\<forall>outs' f. extract_outs baseName input = Inr outs' \<and> f \<in> set outs'
              \<and> Filename f = baseName @ ''.pem'' \<longrightarrow> Contents f = s)"
proof -
  let ?A = "\<lparr>Filename = baseName @ ''.pem'', Contents = s, IsBinary = False, Perms = octal 6 6 4\<rparr>"
  have C: "cert_step baseName input outs0 = Inr (if s \<noteq> [] then outs0 @ [?A] else outs0)" for outs0
    using assms by (simp add: cert_step_def lookup_string_def assert_string_def)
  have only: "Contents f = s"
    if E: "extract_outs baseName input = Inr outs'" and f: "f \<in> set outs'"
      and n: "Filename f = baseName @ ''.pem''" for outs' f
  proof -
    let ?o1 = "if s \<noteq> [] then [?A] else []"
    from E C [of "[]"] obtain o2 o3 o4 o5 where
      2: "key_step baseName input ?o1 = Inr o2"
      and 3: "encrypted_key_step baseName input o2 = Inr o3"
      and 4: "csr_step baseName input o3 = Inr o4"
      and 5: "bundle_step baseName input o4 = Inr o5"
      and 6: "ocsp_step baseName input o5 = Inr outs'"
      by (auto simp: extract_outs_steps split: sum.splits if_splits)
    from key_step_appends [OF 2] obtain n2 where
      n2: "o2 = ?o1 @ n2" "\<forall>g \<in> set n2. Filename g = baseName @ ''-key.pem''" by blast
    from encrypted_key_step_appends [OF 3] obtain n3 where
      n3: "o3 = o2 @ n3" "\<forall>g \<in> set n3. Filename g = baseName @ ''-key.enc''" by blast
    from csr_step_appends [OF 4] obtain n4 where
      n4: "o4 = o3 @ n4" "\<forall>g \<in> set n4. Filename g = baseName @ ''.csr''" by blast
    from bundle_step_appends [OF 5] obtain n5 where
      n5: "o5 = o4 @ n5"
        "\<forall>g \<in> set n5. Filename g = baseName @ ''-bundle.pem'' \<or> Filename g = baseName @ ''-root.pem''"
      by blast
    from ocsp_step_appends [OF 6] obtain n6 where
      n6: "outs' = o5 @ n6" "\<forall>g \<in> set n6. Filename g = baseName @ ''-response.der''" by blast
    have "outs' = ?o1 @ (n2 @ n3 @ n4 @ n5 @ n6)"
      using n2(1) n3(1) n4(1) n5(1) n6(1) by simp
    moreover have "\<forall>g \<in> set (n2 @ n3 @ n4 @ n5 @ n6). Filename g \<noteq> baseName @ ''.pem''"
      using n2(2) n3(2) n4(2) n5(2) n6(2) by auto
    ultimately obtain rest where "outs' = ?o1 @ rest"
      and "\<forall>g \<in> set rest. Filename g \<noteq> baseName @ ''.pem''"
      by blast
    with f n show ?thesis by (auto split: if_splits)
  qed
  from C [of outs] cert_step_ignores_alias [of input, OF assms]
    extract_outs_ignores_alias [of input, OF assms] only
  show ?thesis by blast
qed

text \<open>
  An instance of C5: both keys present with different strings.
\<close>

theorem cert_wins_over_certificate_witness:
  "cert_step ''cert'' [''cert'' \<mapsto> IString ''PRIMARY'', ''certificate'' \<mapsto> IString ''ALIAS''] []
     = Inr [\<lparr>Filename = ''cert.pem'', Contents = ''PRIMARY'', IsBinary = False, Perms = octal 6 6 4\<rparr>]
   \<and> extract_outs ''cert'' [''cert'' \<mapsto> IString ''PRIMARY'', ''certificate'' \<mapsto> IString ''ALIAS'']
     = extract_outs ''cert'' [''cert'' \<mapsto> IString ''PRIMARY'']"
proof -
  let ?m = "[''cert'' \<mapsto> IString ''PRIMARY'']"
  let ?both = "[''cert'' \<mapsto> IString ''PRIMARY'', ''certificate'' \<mapsto> IString ''ALIAS'']"
  have c: "?m ''cert'' = Some (IString ''PRIMARY'')" and c': "?both ''cert'' = Some (IString ''PRIMARY'')"
    by simp_all
  from cert_wins_over_certificate [of ?both "''PRIMARY''", OF c', of "''cert''" "[]", THEN conjunct1]
  have 1: "cert_step ''cert'' ?both [] =
      Inr [\<lparr>Filename = ''cert.pem'', Contents = ''PRIMARY'', IsBinary = False, Perms = octal 6 6 4\<rparr>]"
    by simp
  from cert_wins_over_certificate [of ?m "''PRIMARY''", OF c, of "''cert''" "[]" "Some (IString ''ALIAS'')",
      THEN conjunct2, THEN conjunct2, THEN conjunct1]
  have 2: "extract_outs ''cert'' (?m(''certificate'' := Some (IString ''ALIAS''))) = extract_outs ''cert'' ?m" .
  from 1 2 show ?thesis by blast
qed

subsection \<open>The OCSP response\<close>

text \<open>
  C6. When \<^verbatim>\<open>ocspResponse\<close> is present with a string \<open>v\<close>, the last block decodes \<open>v\<close>
  with \<^verbatim>\<open>base64.StdEncoding\<close>. If the decoder rejects \<open>v\<close>, the block stops the program
  through \<^verbatim>\<open>writeErrorAndExit\<close> with \<^verbatim>\<open>Failed to parse ocspResponse:\<close> followed by the
  decoder's error, which names the offset of the offending byte; a run that reaches the
  block ends with exactly that diagnostic, exit status 1 and no output, and every run on
  such a mapping fails without any artifact. Otherwise the
  block appends \<^verbatim>\<open><base>-response.der\<close>, binary, mode \<^verbatim>\<open>0644\<close>, whose contents are
  the decoded bytes, and a run that reaches the block has it as its last artifact: the
  blocks together stop where the five earlier blocks stop, and otherwise end as this
  block does. In
  particular, when \<open>v\<close> is the standard encoding of a byte string, the contents are
  that byte string.
\<close>

theorem ocsp_response_decoded_or_rejected:
  assumes "input ''ocspResponse'' = Some (IString v)"
  shows "ocsp_step baseName input outs =
           (case DecodeString v of
              Inl err \<Rightarrow> Inl (Exited (''Failed to parse ocspResponse: '' @ err @ [CHR 0x0A]) 1)
            | Inr resp \<Rightarrow>
                Inr (outs @ [\<lparr>Filename = baseName @ ''-response.der'', Contents = resp,
                               IsBinary = True, Perms = octal 6 4 4\<rparr>]))
       \<and> (\<forall>err. DecodeString v = Inl err \<longrightarrow>
             (\<exists>off. err = ''illegal base64 data at input byte '' @ decimal off))
       \<and> (\<forall>err outs5 fileData bare stdoutOutput jsonOutput.
             DecodeString v = Inl err \<and> extract_upto_bundle baseName input = Inr outs5
             \<and> unwrap lib fileData bare = Inr input \<longrightarrow>
             writeOutput lib baseName fileData bare stdoutOutput jsonOutput =
               \<lparr>Stdout = [], Stderr = ''Failed to parse ocspResponse: '' @ err @ [CHR 0x0A],
                Written = [], Status = ExitStatus 1\<rparr>)
       \<and> (\<forall>err fileData bare stdoutOutput jsonOutput.
             DecodeString v = Inl err \<and> unwrap lib fileData bare = Inr input \<longrightarrow>
             Stdout (writeOutput lib baseName fileData bare stdoutOutput jsonOutput) = []
             \<and> Written (writeOutput lib baseName fileData bare stdoutOutput jsonOutput) = []
             \<and> Status (writeOutput lib baseName fileData bare stdoutOutput jsonOutput) \<noteq> Returned)
       \<and> extract_outs baseName input =
           (case extract_upto_bundle baseName input of
              Inl a \<Rightarrow> Inl a
            | Inr outs5 \<Rightarrow>
                (case DecodeString v of
                   Inl err \<Rightarrow>
                     Inl (Exited (''Failed to parse ocspResponse: '' @ err @ [CHR 0x0A]) 1)
                 | Inr resp \<Rightarrow>
                     Inr (outs5 @ [\<lparr>Filename = baseName @ ''-response.der'', Contents = resp,
                                      IsBinary = True, Perms = octal 6 4 4\<rparr>])))
       \<and> (\<forall>bytes. v = EncodeToString bytes \<longrightarrow>
             ocsp_step baseName input outs =
               Inr (outs @ [\<lparr>Filename = baseName @ ''-response.der'', Contents = bytes,
                               IsBinary = True, Perms = octal 6 4 4\<rparr>]))"
proof -
  have S: "ocsp_step baseName input outs0 =
           (case DecodeString v of
              Inl err \<Rightarrow> Inl (Exited (''Failed to parse ocspResponse: '' @ err @ [CHR 0x0A]) 1)
            | Inr resp \<Rightarrow>
                Inr (outs0 @ [\<lparr>Filename = baseName @ ''-response.der'', Contents = resp,
                               IsBinary = True, Perms = octal 6 4 4\<rparr>]))" for outs0
    using assms
    by (simp add: ocsp_step_def assert_string_def writeErrorAndExit_def split: sum.splits)
  have bad: "writeOutput lib baseName fileData bare stdoutOutput jsonOutput =
               \<lparr>Stdout = [], Stderr = ''Failed to parse ocspResponse: '' @ err @ [CHR 0x0A],
                Written = [], Status = ExitStatus 1\<rparr>"
    if "DecodeString v = Inl err" and "extract_upto_bundle baseName input = Inr outs5"
      and U: "unwrap lib fileData bare = Inr input"
    for err outs5 fileData bare stdoutOutput jsonOutput
    using that(1,2) S [of outs5] writeOutput_unwrapped [OF U]
    by (simp add: extract_outs_def start_def)
  have good: "extract_outs baseName input =
           (case extract_upto_bundle baseName input of
              Inl a \<Rightarrow> Inl a
            | Inr outs5 \<Rightarrow>
                (case DecodeString v of
                   Inl err \<Rightarrow>
                     Inl (Exited (''Failed to parse ocspResponse: '' @ err @ [CHR 0x0A]) 1)
                 | Inr resp \<Rightarrow>
                     Inr (outs5 @ [\<lparr>Filename = baseName @ ''-response.der'', Contents = resp,
                                      IsBinary = True, Perms = octal 6 4 4\<rparr>])))"
    using S by (simp add: extract_outs_def split: sum.splits)
  have none: "Stdout (writeOutput lib baseName fileData bare stdoutOutput jsonOutput) = []
             \<and> Written (writeOutput lib baseName fileData bare stdoutOutput jsonOutput) = []
             \<and> Status (writeOutput lib baseName fileData bare stdoutOutput jsonOutput) \<noteq> Returned"
    if D: "DecodeString v = Inl err" and U: "unwrap lib fileData bare = Inr input"
    for err fileData bare stdoutOutput jsonOutput
  proof -
    have "\<exists>a. extract_outs baseName input = Inl a"
    proof (cases "extract_upto_bundle baseName input")
      case (Inl a)
      then show ?thesis by (simp add: extract_outs_def)
    next
      case (Inr outs5)
      with D S [of outs5] show ?thesis by (simp add: extract_outs_def)
    qed
    then obtain a where "extract_outs baseName input = Inl a" ..
    with writeOutput_unwrapped [OF U]
    have "writeOutput lib baseName fileData bare stdoutOutput jsonOutput = abort_outcome a"
      by simp
    with abort_outcome_nothing [of a] show ?thesis by simp
  qed
  have enc: "ocsp_step baseName input outs =
               Inr (outs @ [\<lparr>Filename = baseName @ ''-response.der'', Contents = bytes,
                               IsBinary = True, Perms = octal 6 4 4\<rparr>])"
    if "v = EncodeToString bytes" for bytes
    using that S [of outs] by (simp add: DecodeString_EncodeToString)
  from S [of outs] DecodeString_error_text [of v] bad none good enc show ?thesis by blast
qed

text \<open>
  Instances of C6: \<^verbatim>\<open>MAM=\<close> decodes to the bytes \<^verbatim>\<open>0x30 0x03\<close>, and in JSON mode the
  output object maps \<^verbatim>\<open>cert-response.der\<close> to \<^verbatim>\<open>MAM=\<close> again; \<^verbatim>\<open>not base64\<close> is
  rejected at its fourth byte, the blank.
\<close>

theorem ocsp_response_decoded_or_rejected_witness:
  \<open>ocsp_step ''cert'' [''ocspResponse'' \<mapsto> IString ''MAM=''] []
     = Inr [\<lparr>Filename = ''cert-response.der'', Contents = [CHR 0x30, CHR 0x03],
              IsBinary = True, Perms = octal 6 4 4\<rparr>]
   \<and> ocsp_step ''cert'' [''ocspResponse'' \<mapsto> IString ''not base64''] []
     = Inl (Exited (''Failed to parse ocspResponse: illegal base64 data at input byte 3'' @ [CHR 0x0A]) 1)
   \<and> writeOutput (one_map ''{"ocspResponse":"MAM="}'' [''ocspResponse'' \<mapsto> IString ''MAM=''])
        ''cert'' ''{"ocspResponse":"MAM="}'' True False True
     = \<lparr>Stdout = ''{"cert-response.der":"MAM="}'' @ [CHR 0x0A], Stderr = [], Written = [],
        Status = Returned\<rparr>\<close>
proof -
  let ?good = "[''ocspResponse'' \<mapsto> IString ''MAM='']"
  let ?bad = "[''ocspResponse'' \<mapsto> IString ''not base64'']"
  have g: "?good ''ocspResponse'' = Some (IString ''MAM='')"
    and b: "?bad ''ocspResponse'' = Some (IString ''not base64'')"
    by simp_all
  have dg: "DecodeString ''MAM='' = Inr [CHR 0x30, CHR 0x03]" by code_simp
  have db: "DecodeString ''not base64'' = Inl ''illegal base64 data at input byte 3''" by code_simp
  have enc: "EncodeToString [CHR 0x30, CHR 0x03] = ''MAM=''" by code_simp
  have mar: \<open>json_Marshal [(''cert-response.der'', ''MAM='')] = Inr ''{"cert-response.der":"MAM="}''\<close>
    by code_simp
  from ocsp_response_decoded_or_rejected [of ?good "''MAM=''", OF g, of "''cert''" "[]", THEN conjunct1] dg
  have 1: "ocsp_step ''cert'' ?good [] =
      Inr [\<lparr>Filename = ''cert-response.der'', Contents = [CHR 0x30, CHR 0x03],
              IsBinary = True, Perms = octal 6 4 4\<rparr>]"
    by simp
  from ocsp_response_decoded_or_rejected [of ?bad "''not base64''", OF b, of "''cert''" "[]", THEN conjunct1] db
  have 2: "ocsp_step ''cert'' ?bad [] =
      Inl (Exited (''Failed to parse ocspResponse: illegal base64 data at input byte 3'' @ [CHR 0x0A]) 1)"
    by simp
  have pre: "extract_upto_bundle ''cert'' ?good = Inr []"
    by (simp add: extract_upto_bundle_def extract_upto_csr_def cert_step_def key_step_def
          encrypted_key_step_def csr_step_def bundle_step_def lookup_string_def map_ok_def)
  have u: \<open>unwrap (one_map ''{"ocspResponse":"MAM="}'' ?good) ''{"ocspResponse":"MAM="}'' True = Inr ?good\<close>
    by (simp add: unwrap_def one_map_def)
  have e: "extract_outs ''cert'' ?good =
      Inr [\<lparr>Filename = ''cert-response.der'', Contents = [CHR 0x30, CHR 0x03],
              IsBinary = True, Perms = octal 6 4 4\<rparr>]"
    using pre 1 by (simp add: extract_outs_def)
  have d: "fill_dict [\<lparr>Filename = ''cert-response.der'', Contents = [CHR 0x30, CHR 0x03],
              IsBinary = True, Perms = octal 6 4 4\<rparr>] [] = [(''cert-response.der'', ''MAM='')]"
    by (simp add: enc del: EncodeToString.simps)
  have 3: \<open>writeOutput (one_map ''{"ocspResponse":"MAM="}'' ?good)
        ''cert'' ''{"ocspResponse":"MAM="}'' True False True
     = \<lparr>Stdout = ''{"cert-response.der":"MAM="}'' @ [CHR 0x0A], Stderr = [], Written = [],
        Status = Returned\<rparr>\<close>
    using writeOutput_unwrapped [OF u] e d mar by (simp add: sink_def start_def)
  show ?thesis by (intro conjI) (rule 1, rule 2, rule 3)
qed

subsection \<open>The JSON sink\<close>

text \<open>
  C7. For an input that decodes to an envelope with \<^verbatim>\<open>success = true\<close> and the
  \<^verbatim>\<open>result\<close> \<^verbatim>\<open>{"cert":"CERTDATA","key":"KEYDATA"}\<close>, base name \<^verbatim>\<open>mycert\<close> and
  \<^verbatim>\<open>jsonOutput = true\<close>: standard output receives exactly
  \<^verbatim>\<open>{"mycert-key.pem":"KEYDATA","mycert.pem":"CERTDATA"}\<close> and a newline (the encoder
  sorts the keys), nothing goes to the diagnostic stream, no file is written, and the
  run returns normally.
\<close>

theorem json_scenario_mycert:
  assumes "json_Unmarshal_Response lib fileData = Inr response"
    and "Success response"
    and "Result response = [''cert'' \<mapsto> IString ''CERTDATA'', ''key'' \<mapsto> IString ''KEYDATA'']"
  shows \<open>writeOutput lib ''mycert'' fileData False stdoutOutput True =
           \<lparr>Stdout = ''{"mycert-key.pem":"KEYDATA","mycert.pem":"CERTDATA"}'' @ [CHR 0x0A],
            Stderr = [], Written = [], Status = Returned\<rparr>\<close>
proof -
  have U: "unwrap lib fileData False = Inr (Result response)"
    using assms(1,2) by (simp add: unwrap_def)
  have E: "extract_outs ''mycert'' (Result response) =
             Inr [\<lparr>Filename = ''mycert.pem'', Contents = ''CERTDATA'', IsBinary = False, Perms = octal 6 6 4\<rparr>,
                  \<lparr>Filename = ''mycert-key.pem'', Contents = ''KEYDATA'', IsBinary = False, Perms = octal 6 0 0\<rparr>]"
    unfolding assms(3)
    by (simp add: extract_outs_steps cert_step_def key_step_def encrypted_key_step_def csr_step_def
          bundle_step_def ocsp_step_def lookup_string_def assert_string_def map_ok_def)
  have D: "fill_dict [\<lparr>Filename = ''mycert.pem'', Contents = ''CERTDATA'', IsBinary = False, Perms = octal 6 6 4\<rparr>,
                  \<lparr>Filename = ''mycert-key.pem'', Contents = ''KEYDATA'', IsBinary = False, Perms = octal 6 0 0\<rparr>] []
           = [(''mycert.pem'', ''CERTDATA''), (''mycert-key.pem'', ''KEYDATA'')]"
    by simp
  have M: \<open>json_Marshal [(''mycert.pem'', ''CERTDATA''), (''mycert-key.pem'', ''KEYDATA'')]
           = Inr ''{"mycert-key.pem":"KEYDATA","mycert.pem":"CERTDATA"}''\<close>
    by code_simp
  show ?thesis
    using writeOutput_unwrapped [OF U] E D M by (simp add: sink_def start_def)
qed

text \<open>
  The instance of C7 with a decoder that maps the document of the claim to that envelope.
\<close>

theorem json_scenario_mycert_witness:
  \<open>writeOutput
      (one_response ''{"success":true,"result":{"cert":"CERTDATA","key":"KEYDATA"}}''
         \<lparr>Success = True,
          Result = [''cert'' \<mapsto> IString ''CERTDATA'', ''key'' \<mapsto> IString ''KEYDATA''],
          Errors = [], Messages = []\<rparr>)
      ''mycert'' ''{"success":true,"result":{"cert":"CERTDATA","key":"KEYDATA"}}'' False True True
    = \<lparr>Stdout = ''{"mycert-key.pem":"KEYDATA","mycert.pem":"CERTDATA"}'' @ [CHR 0x0A],
       Stderr = [], Written = [], Status = Returned\<rparr>\<close>
proof -
  let ?doc = \<open>''{"success":true,"result":{"cert":"CERTDATA","key":"KEYDATA"}}''\<close>
  let ?r = "\<lparr>Success = True,
          Result = [''cert'' \<mapsto> IString ''CERTDATA'', ''key'' \<mapsto> IString ''KEYDATA''],
          Errors = [], Messages = []\<rparr>"
  have dec: "json_Unmarshal_Response (one_response ?doc ?r) ?doc = Inr ?r"
    by (simp add: one_response_def)
  have ok: "Success ?r"
    and res: "Result ?r = [''cert'' \<mapsto> IString ''CERTDATA'', ''key'' \<mapsto> IString ''KEYDATA'']"
    by simp_all
  from json_scenario_mycert [OF dec ok res, of True] show ?thesis .
qed

subsection \<open>A certificate that is not a string\<close>




subsection \<open>The encrypted key\<close>

text \<open>
  C9. When \<^verbatim>\<open>encrypted_key\<close> is present with a string \<open>s\<close>, empty or not, the block
  appends \<^verbatim>\<open><base>-key.enc\<close> with contents \<open>s\<close>, binary, mode \<^verbatim>\<open>0600\<close>; the blocks
  together are the two earlier blocks, this artifact, and the three later blocks, so
  every completed run has that artifact; whereas the certificate, key and request blocks
  append nothing when their key holds the empty string.
\<close>

theorem encrypted_key_always_emitted:
  assumes "input ''encrypted_key'' = Some (IString s)"
  shows "encrypted_key_step baseName input outs =
           Inr (outs @ [\<lparr>Filename = baseName @ ''-key.enc'', Contents = s,
                          IsBinary = True, Perms = octal 6 0 0\<rparr>])
       \<and> extract_outs baseName input =
           (case cert_step baseName input [] of Inl a \<Rightarrow> Inl a | Inr outs1 \<Rightarrow>
           (case key_step baseName input outs1 of Inl a \<Rightarrow> Inl a | Inr outs2 \<Rightarrow>
           (case csr_step baseName input
                   (outs2 @ [\<lparr>Filename = baseName @ ''-key.enc'', Contents = s,
                                IsBinary = True, Perms = octal 6 0 0\<rparr>]) of
              Inl a \<Rightarrow> Inl a | Inr outs4 \<Rightarrow>
           (case bundle_step baseName input outs4 of Inl a \<Rightarrow> Inl a | Inr outs5 \<Rightarrow>
            ocsp_step baseName input outs5))))
       \<and> (\<forall>outs'. extract_outs baseName input = Inr outs' \<longrightarrow>
             \<lparr>Filename = baseName @ ''-key.enc'', Contents = s,
               IsBinary = True, Perms = octal 6 0 0\<rparr> \<in> set outs')
       \<and> (input ''cert'' = Some (IString []) \<longrightarrow> cert_step baseName input outs = Inr outs)
       \<and> (input ''key'' = Some (IString []) \<longrightarrow> key_step baseName input outs = Inr outs)
       \<and> (input ''csr'' = Some (IString []) \<longrightarrow> csr_step baseName input outs = Inr outs)"
proof -
  let ?K = "\<lparr>Filename = baseName @ ''-key.enc'', Contents = s, IsBinary = True, Perms = octal 6 0 0\<rparr>"
  have K: "encrypted_key_step baseName input outs0 = Inr (outs0 @ [?K])" for outs0
    using assms by (simp add: encrypted_key_step_def assert_string_def)
  have mem: "?K \<in> set outs'" if E: "extract_outs baseName input = Inr outs'" for outs'
  proof -
    from E obtain o2 o4 o5 where
      4: "csr_step baseName input (o2 @ [?K]) = Inr o4"
      and 5: "bundle_step baseName input o4 = Inr o5"
      and 6: "ocsp_step baseName input o5 = Inr outs'"
      using K by (auto simp: extract_outs_steps split: sum.splits)
    from csr_step_appends [OF 4] bundle_step_appends [OF 5] ocsp_step_appends [OF 6]
    show ?thesis by auto
  qed
  have "input ''cert'' = Some (IString []) \<longrightarrow> cert_step baseName input outs = Inr outs"
    by (simp add: cert_step_def lookup_string_def assert_string_def)
  moreover have "input ''key'' = Some (IString []) \<longrightarrow> key_step baseName input outs = Inr outs"
    by (simp add: key_step_def lookup_string_def assert_string_def)
  moreover have "input ''csr'' = Some (IString []) \<longrightarrow> csr_step baseName input outs = Inr outs"
    by (simp add: csr_step_def lookup_string_def assert_string_def)
  moreover have "extract_outs baseName input =
           (case cert_step baseName input [] of Inl a \<Rightarrow> Inl a | Inr outs1 \<Rightarrow>
           (case key_step baseName input outs1 of Inl a \<Rightarrow> Inl a | Inr outs2 \<Rightarrow>
           (case csr_step baseName input (outs2 @ [?K]) of Inl a \<Rightarrow> Inl a | Inr outs4 \<Rightarrow>
           (case bundle_step baseName input outs4 of Inl a \<Rightarrow> Inl a | Inr outs5 \<Rightarrow>
            ocsp_step baseName input outs5))))"
    using K by (simp add: extract_outs_steps split: sum.splits)
  ultimately show ?thesis using K [of outs] mem by blast
qed

text \<open>
  An instance of C9: the empty string under both \<^verbatim>\<open>encrypted_key\<close> and \<^verbatim>\<open>cert\<close>.
\<close>

theorem encrypted_key_always_emitted_witness:
  "encrypted_key_step ''cert''
     [''encrypted_key'' \<mapsto> IString [], ''cert'' \<mapsto> IString [], ''key'' \<mapsto> IString [],
      ''csr'' \<mapsto> IString []] []
     = Inr [\<lparr>Filename = ''cert-key.enc'', Contents = [], IsBinary = True, Perms = octal 6 0 0\<rparr>]
   \<and> cert_step ''cert''
     [''encrypted_key'' \<mapsto> IString [], ''cert'' \<mapsto> IString [], ''key'' \<mapsto> IString [],
      ''csr'' \<mapsto> IString []] [] = Inr []
   \<and> key_step ''cert''
     [''encrypted_key'' \<mapsto> IString [], ''cert'' \<mapsto> IString [], ''key'' \<mapsto> IString [],
      ''csr'' \<mapsto> IString []] [] = Inr []
   \<and> csr_step ''cert''
     [''encrypted_key'' \<mapsto> IString [], ''cert'' \<mapsto> IString [], ''key'' \<mapsto> IString [],
      ''csr'' \<mapsto> IString []] [] = Inr []
   \<and> extract_outs ''cert''
     [''encrypted_key'' \<mapsto> IString [], ''cert'' \<mapsto> IString [], ''key'' \<mapsto> IString [],
      ''csr'' \<mapsto> IString []]
     = Inr [\<lparr>Filename = ''cert-key.enc'', Contents = [], IsBinary = True, Perms = octal 6 0 0\<rparr>]"
proof -
  let ?m = "[''encrypted_key'' \<mapsto> IString [], ''cert'' \<mapsto> IString [], ''key'' \<mapsto> IString [],
      ''csr'' \<mapsto> IString []]"
  let ?K = "\<lparr>Filename = ''cert-key.enc'', Contents = [], IsBinary = True, Perms = octal 6 0 0\<rparr>"
  have e: "?m ''encrypted_key'' = Some (IString [])" and c: "?m ''cert'' = Some (IString [])"
    and k: "?m ''key'' = Some (IString [])" and r: "?m ''csr'' = Some (IString [])"
    by simp_all
  note T = encrypted_key_always_emitted [of ?m "[]", OF e, of "''cert''" "[]"]
  from T have 1: "encrypted_key_step ''cert'' ?m [] = Inr [?K]" by simp
  from T c have 2: "cert_step ''cert'' ?m [] = Inr []" by blast
  from T k have 3: "key_step ''cert'' ?m [] = Inr []" by blast
  from T r have 4: "csr_step ''cert'' ?m [] = Inr []" by blast
  from encrypted_key_always_emitted [of ?m "[]", OF e, of "''cert''" "[?K]"] r
  have after: "csr_step ''cert'' ?m [?K] = Inr [?K]" by blast
  have 5: "extract_outs ''cert'' ?m = Inr [?K]"
    using 1 2 3 after
    by (simp add: extract_outs_steps bundle_step_def ocsp_step_def map_ok_def)
  from 1 2 3 4 5 show ?thesis by blast
qed

subsection \<open>Bare mode\<close>

text \<open>
  C10. In bare mode the first phase fails exactly when \<^verbatim>\<open>json.Unmarshal\<close> into the map
  reports an error, and then with \<^verbatim>\<open>Failed to parse JSON:\<close> and the raw input; otherwise
  the decoded map goes to the blocks as it is and the run is what the blocks and the
  sink make of it. The blocks never read the keys \<^verbatim>\<open>success\<close>, \<^verbatim>\<open>errors\<close> and
  \<^verbatim>\<open>messages\<close>: whatever is stored under them, the result is the same. So a bare object
  with \<^verbatim>\<open>"success": false\<close> can yield an artifact, and some do.
\<close>

theorem bare_mode_ignores_success:
  shows "unwrap lib fileData True =
           (case json_Unmarshal_map lib fileData of
              Inl err \<Rightarrow> Inl (Exited (''Failed to parse JSON: '' @ fileData @ [CHR 0x0A]) 1)
            | Inr input \<Rightarrow> Inr input)
       \<and> (\<forall>input. json_Unmarshal_map lib fileData = Inr input \<longrightarrow>
             writeOutput lib baseName fileData True stdoutOutput jsonOutput =
               (case extract_outs baseName input of
                  Inl a \<Rightarrow> abort_outcome a
                | Inr outs \<Rightarrow> sink lib outs stdoutOutput jsonOutput))
       \<and> (\<forall>input flag errs msgs.
             extract_outs baseName (input(''success'' := flag, ''errors'' := errs, ''messages'' := msgs))
               = extract_outs baseName input)
       \<and> (\<exists>input a. input ''success'' = Some (IBool False)
             \<and> extract_outs baseName input = Inr [a])"
proof -
  have U: "unwrap lib fileData True =
           (case json_Unmarshal_map lib fileData of
              Inl err \<Rightarrow> Inl (Exited (''Failed to parse JSON: '' @ fileData @ [CHR 0x0A]) 1)
            | Inr input \<Rightarrow> Inr input)"
    by (simp add: unwrap_def writeErrorAndExit_def split: sum.splits)
  have W: "writeOutput lib baseName fileData True stdoutOutput jsonOutput =
               (case extract_outs baseName input of
                  Inl a \<Rightarrow> abort_outcome a
                | Inr outs \<Rightarrow> sink lib outs stdoutOutput jsonOutput)"
    if "json_Unmarshal_map lib fileData = Inr input" for input
    using that U by (intro writeOutput_unwrapped) simp
  have I: "extract_outs baseName (input(''success'' := flag, ''errors'' := errs, ''messages'' := msgs))
               = extract_outs baseName input" for input flag errs msgs
    by (simp add: extract_outs_ignores_key)
  have X: "\<exists>input a. input ''success'' = Some (IBool False) \<and> extract_outs baseName input = Inr [a]"
  proof -
    let ?i = "[''success'' \<mapsto> IBool False, ''cert'' \<mapsto> IString ''C'']"
    have "?i ''success'' = Some (IBool False)"
      by simp
    moreover have "extract_outs baseName ?i =
            Inr [\<lparr>Filename = baseName @ ''.pem'', Contents = ''C'', IsBinary = False,
                   Perms = octal 6 6 4\<rparr>]"
      by (simp add: extract_outs_steps cert_step_def key_step_def encrypted_key_step_def
            csr_step_def bundle_step_def ocsp_step_def lookup_string_def assert_string_def map_ok_def)
    ultimately show ?thesis by blast
  qed
  from U W I X show ?thesis by blast
qed

text \<open>
  An instance of C10: a bare object with \<^verbatim>\<open>"success": false\<close>, an error message and a
  certificate; the certificate is written.
\<close>

theorem bare_mode_ignores_success_witness:
  \<open>writeOutput
      (one_map ''{"success":false,"errors":[{"message":"denied"}],"cert":"C"}''
         [''success'' \<mapsto> IBool False,
          ''errors'' \<mapsto> ISlice [IMap [''message'' \<mapsto> IString ''denied'']],
          ''cert'' \<mapsto> IString ''C''])
      ''cert'' ''{"success":false,"errors":[{"message":"denied"}],"cert":"C"}'' True False False
    = \<lparr>Stdout = [], Stderr = [], Written = [(''cert.pem'', ''C'', octal 6 6 4)], Status = Returned\<rparr>\<close>
proof -
  let ?doc = \<open>''{"success":false,"errors":[{"message":"denied"}],"cert":"C"}''\<close>
  let ?m = "[''success'' \<mapsto> IBool False,
          ''errors'' \<mapsto> ISlice [IMap [''message'' \<mapsto> IString ''denied'']],
          ''cert'' \<mapsto> IString ''C'']"
  have dec: "json_Unmarshal_map (one_map ?doc ?m) ?doc = Inr ?m"
    by (simp add: one_map_def)
  have E: "extract_outs ''cert'' ?m =
      Inr [\<lparr>Filename = ''cert.pem'', Contents = ''C'', IsBinary = False, Perms = octal 6 6 4\<rparr>]"
    by (simp add: eval_defs)
  have S: "sink (one_map ?doc ?m)
      [\<lparr>Filename = ''cert.pem'', Contents = ''C'', IsBinary = False, Perms = octal 6 6 4\<rparr>] False False
    = \<lparr>Stdout = [], Stderr = [], Written = [(''cert.pem'', ''C'', octal 6 6 4)], Status = Returned\<rparr>"
    by (simp add: sink_def writeFile_def start_def one_map_def)
  from bare_mode_ignores_success [of "one_map ?doc ?m" ?doc "''cert''" False False]
  have "writeOutput (one_map ?doc ?m) ''cert'' ?doc True False False =
          (case extract_outs ''cert'' ?m of
             Inl a \<Rightarrow> abort_outcome a
           | Inr outs \<Rightarrow> sink (one_map ?doc ?m) outs False False)"
    using dec by blast
  with E S show ?thesis by simp
qed

end
